theory Spec2Isabelle
  imports Complex_Main "HOL-Library.Multiset"
begin

section \<open>Numbers\<close>

text \<open>
  Every number of the application is a JavaScript Number, an IEEE 754 double. The forms
  that produce amounts and targets are number inputs with the default step of 1, and the
  amounts are shown as yen: amounts, balances and targets hold whole values, and such a
  Number is modelled by the integer it denotes. All integers of magnitude at most \<open>2^53\<close>
  are doubles; beyond that a double keeps 53 significant bits, and the result of \<open>+\<close> and
  \<open>-\<close> is the exact result rounded to the nearest double, ties to the even significand.
  The percentage of progress is not whole: it is modelled by the rational it denotes, and
  \<open>/\<close> and \<open>*\<close> round the exact result in the same way, with the exponent of the last
  bit not below -1074 (gradual underflow). A result of magnitude \<open>2^1024\<close> or more is
  Infinity in the code and a large number here; the only place where that can happen is
  the product in \<open>progress\<close>, where the clamp to 0 and 100 gives the same value for
  both. NaN is outside the model.
\<close>

function bit_length :: "int \<Rightarrow> nat" where
  "bit_length n = (if n \<le> 0 then 0 else Suc (bit_length (n div 2)))"
  by pat_completeness auto
termination
  by (relation "measure nat") auto

declare bit_length.simps [simp del]

definition round_to_double :: "int \<Rightarrow> int" where
  "round_to_double n =
     (let m = \<bar>n\<bar> in
      if m \<le> 2 ^ 53 then n
      else
        let e = bit_length m - 53;
            q = m div 2 ^ e;
            r = m mod 2 ^ e;
            h = 2 ^ (e - 1);
            q' = (if r < h then q else if h < r then q + 1 else if even q then q else q + 1)
        in sgn n * (q' * 2 ^ e))"

definition num_add :: "int \<Rightarrow> int \<Rightarrow> int" where
  "num_add a b = round_to_double (a + b)"


text \<open>
  Rounding of a rational to the nearest double: the nearest integer, ties to even, of the
  value scaled by the power of two of its last significant bit.
\<close>

definition round_half_even :: "rat \<Rightarrow> int" where
  "round_half_even x =
     (let n = \<lfloor>x\<rfloor>; f = x - of_int n
      in if f < 1 / 2 then n else if 1 / 2 < f then n + 1 else if even n then n else n + 1)"

definition binary_exponent :: "rat \<Rightarrow> int" where
  "binary_exponent x =
     (case quotient_of x of
        (a, b) \<Rightarrow>
          let k = int (bit_length a) - int (bit_length b)
          in if 2 powi k \<le> x then k else k - 1)"

definition round_to_double_rat :: "rat \<Rightarrow> rat" where
  "round_to_double_rat x =
     (if x = 0 then 0
      else
        let e = max (binary_exponent \<bar>x\<bar> - 52) (- 1074);
            m = round_half_even (\<bar>x\<bar> / 2 powi e)
        in sgn x * of_int m * 2 powi e)"

definition num_div :: "int \<Rightarrow> int \<Rightarrow> rat" where
  "num_div a b = round_to_double_rat (of_int a / of_int b)"

definition num_mul :: "rat \<Rightarrow> rat \<Rightarrow> rat" where
  "num_mul x y = round_to_double_rat (x * y)"

section \<open>Data model\<close>

text \<open>
  A stored date is a Firestore Timestamp, of which the code reads the field \<open>seconds\<close>
  only. A transaction whose server timestamp is still pending has no date (\<open>null\<close>).
  The fields \<open>id\<close> and \<open>type\<close> of a transaction are called \<open>ident\<close> and \<open>ttype\<close>.
\<close>

record timestamp =
  seconds :: int

datatype transaction_type = Income | Expense

record transaction =
  ident :: string
  description :: string
  amount :: int
  ttype :: transaction_type
  date :: "timestamp option"

text \<open>A goal document; \<open>targetAmount\<close> may be missing (\<open>undefined\<close>).\<close>

record goal =
  name :: string
  targetAmount :: "int option"

section \<open>Balance and progress\<close>

text \<open>\<^verbatim>\<open>transactions.reduce((acc, t) => acc + t.amount, 0)\<close>\<close>

definition currentBalance :: "transaction list \<Rightarrow> int" where
  "currentBalance transactions = foldl (\<lambda>acc t. num_add acc (amount t)) 0 transactions"

text \<open>
  \<^verbatim>\<open>if (!goal || !goal.targetAmount) return 0;
  return Math.max(0, Math.min(100, (currentBalance / goal.targetAmount) * 100));\<close>
\<close>

definition progress :: "int \<Rightarrow> goal option \<Rightarrow> rat" where
  "progress balance g =
     (case g of
        None \<Rightarrow> 0
      | Some gl \<Rightarrow>
          (case targetAmount gl of
             None \<Rightarrow> 0
           | Some ta \<Rightarrow>
               if ta = 0 then 0
               else max 0 (min 100 (num_mul (num_div balance ta) 100))))"

section \<open>Dates\<close>

text \<open>
  A JavaScript Date is its time value, the milliseconds since the epoch. The calendar
  fields of a day number (days since 1970-01-01, proleptic Gregorian calendar) are
  computed with the usual era arithmetic; \<open>div\<close> and \<open>mod\<close> on \<open>int\<close> round down.
\<close>

type_synonym js_date = int

definition msPerDay :: int where
  "msPerDay = 86400000"

definition civil_from_days :: "int \<Rightarrow> int \<times> int \<times> int" where
  "civil_from_days n =
     (let z = n + 719468;
          era = z div 146097;
          doe = z mod 146097;
          yoe = (doe - doe div 1460 + doe div 36524 - doe div 146096) div 365;
          doy = doe - (365 * yoe + yoe div 4 - yoe div 100);
          mp = (5 * doy + 2) div 153;
          d = doy - (153 * mp + 2) div 5 + 1;
          m = (if mp < 10 then mp + 3 else mp - 9);
          y = yoe + era * 400
      in (if m \<le> 2 then y + 1 else y, m, d))"

definition days_from_civil :: "int \<Rightarrow> int \<Rightarrow> int \<Rightarrow> int" where
  "days_from_civil y m d =
     (let y' = (if m \<le> 2 then y - 1 else y);
          era = y' div 400;
          yoe = y' mod 400;
          mp = (m + 9) mod 12;
          doy = (153 * mp + 2) div 5 + d - 1;
          doe = yoe * 365 + yoe div 4 - yoe div 100 + doy
      in era * 146097 + doe - 719468)"

definition digit_char :: "nat \<Rightarrow> char" where
  "digit_char d = ''0123456789'' ! d"

fun pad_digits :: "nat \<Rightarrow> nat \<Rightarrow> string" where
  "pad_digits 0 n = []"
| "pad_digits (Suc w) n = pad_digits w (n div 10) @ [digit_char (n mod 10)]"

text \<open>
  \<^verbatim>\<open>date.toISOString().split('T')[0]\<close>: the UTC calendar date of the time value, as
  \<open>YYYY-MM-DD\<close>; a year outside 0..9999 is written with a sign and six digits. A Firestore
  Timestamp lies in the years 1 to 9999, where \<open>toISOString\<close> does not throw.
\<close>

definition toISODate :: "js_date \<Rightarrow> string" where
  "toISODate t =
     (case civil_from_days (t div msPerDay) of
        (y, m, d) \<Rightarrow>
          (if 0 \<le> y \<and> y \<le> 9999 then pad_digits 4 (nat y)
           else (if y < 0 then ''-'' else ''+'') @ pad_digits 6 (nat \<bar>y\<bar>))
          @ ''-'' @ pad_digits 2 (nat m) @ ''-'' @ pad_digits 2 (nat d))"

text \<open>\<^verbatim>\<open>new Date(t.date.seconds * 1000)\<close>\<close>

definition dateOfTimestamp :: "timestamp \<Rightarrow> js_date" where
  "dateOfTimestamp ts = seconds ts * 1000"

text \<open>
  The local-time operations depend on the time zone of the browser, here a fixed offset
  \<open>tz\<close> in minutes east of UTC (540 in Japan). \<^verbatim>\<open>new Date(year, month, day)\<close> is local
  midnight of the day that is \<open>day - 1\<close> days after the first of the month; the month index
  counts from 0 and may overflow into the next year, and a year from 0 to 99 means 1900 to
  1999.
\<close>

definition newDate :: "int \<Rightarrow> int \<Rightarrow> int \<Rightarrow> int \<Rightarrow> js_date" where
  "newDate tz year month day =
     (let yr = (if 0 \<le> year \<and> year \<le> 99 then 1900 + year else year);
          ym = yr + month div 12;
          mn = month mod 12
      in (days_from_civil ym (mn + 1) 1 + day - 1) * msPerDay - tz * 60000)"

definition localDay :: "int \<Rightarrow> js_date \<Rightarrow> int" where
  "localDay tz t = (t + tz * 60000) div msPerDay"

definition getDay :: "int \<Rightarrow> js_date \<Rightarrow> nat" where
  "getDay tz t = nat ((localDay tz t + 4) mod 7)"

definition getDate :: "int \<Rightarrow> js_date \<Rightarrow> int" where
  "getDate tz t = (case civil_from_days (localDay tz t) of (y, m, d) \<Rightarrow> d)"

definition getFullYear :: "int \<Rightarrow> js_date \<Rightarrow> int" where
  "getFullYear tz t = (case civil_from_days (localDay tz t) of (y, m, d) \<Rightarrow> y)"

definition getMonth :: "int \<Rightarrow> js_date \<Rightarrow> int" where
  "getMonth tz t = (case civil_from_days (localDay tz t) of (y, m, d) \<Rightarrow> m - 1)"

text \<open>
  \<^verbatim>\<open>setCurrentDate(new Date(currentDate.getFullYear(), currentDate.getMonth() - 1, 1))\<close>
\<close>

definition prevMonth :: "int \<Rightarrow> js_date \<Rightarrow> js_date" where
  "prevMonth tz currentDate =
     newDate tz (getFullYear tz currentDate) (getMonth tz currentDate - 1) 1"

text \<open>
  The local calendar date of a time value, in the format of the day keys
  (\<open>toLocaleDateString\<close> of the transaction list shows this date).
\<close>

definition localDateKey :: "int \<Rightarrow> js_date \<Rightarrow> string" where
  "localDateKey tz t = toISODate (t + tz * 60000)"

section \<open>Daily aggregates\<close>

record daily_aggregate =
  income :: int
  expense :: int

text \<open>
  The body of the \<open>forEach\<close> of \<open>dailyData\<close>:
  \<^verbatim>\<open>if (t.date && t.date.seconds) {
    const dateKey = new Date(t.date.seconds * 1000).toISOString().split('T')[0];
    if (!data[dateKey]) data[dateKey] = { income: 0, expense: 0 };
    if (t.amount > 0) data[dateKey].income += t.amount; else data[dateKey].expense += t.amount;
  }\<close>
  A \<open>seconds\<close> of 0 is falsy.
\<close>

definition addToDay :: "(string \<rightharpoonup> daily_aggregate) \<Rightarrow> transaction \<Rightarrow> (string \<rightharpoonup> daily_aggregate)" where
  "addToDay data t =
     (case date t of
        None \<Rightarrow> data
      | Some ts \<Rightarrow>
          if seconds ts = 0 then data
          else
            let dateKey = toISODate (dateOfTimestamp ts);
                cur = (case data dateKey of None \<Rightarrow> \<lparr>income = 0, expense = 0\<rparr> | Some a \<Rightarrow> a)
            in if amount t > 0
               then data(dateKey \<mapsto> cur\<lparr>income := num_add (income cur) (amount t)\<rparr>)
               else data(dateKey \<mapsto> cur\<lparr>expense := num_add (expense cur) (amount t)\<rparr>))"

definition dailyData :: "transaction list \<Rightarrow> (string \<rightharpoonup> daily_aggregate)" where
  "dailyData transactions = foldl addToDay Map.empty transactions"

section \<open>Transactions of a day\<close>

text \<open>
  \<^verbatim>\<open>const dateKey = date.toISOString().split('T')[0];
  transactions.filter(t => t.date &&
      new Date(t.date.seconds * 1000).toISOString().split('T')[0] === dateKey)
    .sort((a, b) => b.date.seconds - a.date.seconds)\<close>
  \<open>sort\<close> is stable, as \<open>sort_key\<close> is. Every transaction that passes the filter has a
  date, so the comparison never reads the \<open>seconds\<close> of \<open>null\<close>.
\<close>

definition onDate :: "string \<Rightarrow> transaction \<Rightarrow> bool" where
  "onDate dateKey t =
     (case date t of None \<Rightarrow> False | Some ts \<Rightarrow> toISODate (dateOfTimestamp ts) = dateKey)"

definition secondsOf :: "transaction \<Rightarrow> int" where
  "secondsOf t = (case date t of None \<Rightarrow> 0 | Some ts \<Rightarrow> seconds ts)"

definition dailyTransactions :: "js_date \<Rightarrow> transaction list \<Rightarrow> transaction list" where
  "dailyTransactions d transactions =
     (let dateKey = toISODate d
      in sort_key (\<lambda>t. - secondsOf t) (filter (onDate dateKey) transactions))"

section \<open>Calendar grid\<close>

text \<open>
  The cells of \<open>calendarDays\<close>: the empty cells before day 1 (keys \<open>empty-start-i\<close>), one
  cell per day with its number and the aggregate found under the day's key, and the empty
  cells that complete the last row (keys \<open>empty-end-i\<close>). The key of a day cell is
  \<^verbatim>\<open>new Date(year, month, day).toISOString().split('T')[0]\<close>.
\<close>

datatype cell = EmptyStart nat | DayCell int "daily_aggregate option" | EmptyEnd nat

definition calendarDays :: "int \<Rightarrow> (string \<rightharpoonup> daily_aggregate) \<Rightarrow> int \<Rightarrow> int \<Rightarrow> cell list" where
  "calendarDays tz data year month =
     (let startOfMonth = newDate tz year month 1;
          endOfMonth = newDate tz year (month + 1) 0;
          startDay = getDay tz startOfMonth;
          daysInMonth = getDate tz endOfMonth;
          cells = map EmptyStart [0..<startDay]
                  @ map (\<lambda>day. DayCell day (data (toISODate (newDate tz year month day))))
                      [1..daysInMonth];
          remainingCells = (7 - length cells mod 7) mod 7
      in cells @ map EmptyEnd [0..<remainingCells])"

text \<open>
  The grid is built for the year and the month of the current date of the view.
\<close>

definition calendarView :: "int \<Rightarrow> (string \<rightharpoonup> daily_aggregate) \<Rightarrow> js_date \<Rightarrow> cell list" where
  "calendarView tz data currentDate =
     calendarDays tz data (getFullYear tz currentDate) (getMonth tz currentDate)"

section \<open>Progress card\<close>



section \<open>Notions used to state the properties\<close>

text \<open>
  The exact regime: the magnitudes of all amounts add up to at most \<open>2^53\<close>, so that no
  sum of some of them, in any order, leaves the range where every integer is a double.
\<close>

definition within_exact_range :: "transaction list \<Rightarrow> bool" where
  "within_exact_range T \<longleftrightarrow> sum_list (map (\<lambda>t. \<bar>amount t\<bar>) T) \<le> 2 ^ 53"

text \<open>The sum of Numbers as the code accumulates it, from the left and starting at 0.\<close>

definition num_sum :: "int list \<Rightarrow> int" where
  "num_sum xs = foldl num_add 0 xs"

text \<open>The day key under which \<open>dailyData\<close> counts a transaction, if it counts it.\<close>

definition bucketKey :: "transaction \<Rightarrow> string option" where
  "bucketKey t =
     (case date t of
        None \<Rightarrow> None
      | Some ts \<Rightarrow> if seconds ts = 0 then None else Some (toISODate (dateOfTimestamp ts)))"

text \<open>A transaction whose timestamp is the epoch itself.\<close>

definition epochStamped :: "transaction \<Rightarrow> bool" where
  "epochStamped t = (case date t of None \<Rightarrow> False | Some ts \<Rightarrow> seconds ts = 0)"

text \<open>The aggregate of the transactions of one day, accumulated in list order.\<close>

definition aggregateOf :: "transaction list \<Rightarrow> daily_aggregate option" where
  "aggregateOf B =
     (if B = [] then None
      else Some \<lparr>income = num_sum (filter (\<lambda>a. 0 < a) (map amount B)),
                 expense = num_sum (filter (\<lambda>a. \<not> 0 < a) (map amount B))\<rparr>)"

text \<open>The sums of the positive and of the negative amounts of a list of transactions.\<close>

definition positiveSum :: "transaction list \<Rightarrow> int" where
  "positiveSum B = sum_list (filter (\<lambda>a. 0 < a) (map amount B))"

definition negativeSum :: "transaction list \<Rightarrow> int" where
  "negativeSum B = sum_list (filter (\<lambda>a. a < 0) (map amount B))"

definition nonPositiveSum :: "transaction list \<Rightarrow> int" where
  "nonPositiveSum B = sum_list (filter (\<lambda>a. a \<le> 0) (map amount B))"

text \<open>
  The per-date lists of \<open>dailyTransactions\<close>, one after the other, over a list of dates.
\<close>

definition bucketsOver :: "js_date list \<Rightarrow> transaction list \<Rightarrow> transaction list" where
  "bucketsOver ds T = concat (map (\<lambda>d. dailyTransactions d T) ds)"

definition dated :: "transaction \<Rightarrow> bool" where
  "dated t \<longleftrightarrow> date t \<noteq> None"

text \<open>The distinct day keys of the dated transactions of a list.\<close>

definition dayKeyOf :: "transaction \<Rightarrow> string list" where
  "dayKeyOf t = (case date t of None \<Rightarrow> [] | Some ts \<Rightarrow> [toISODate (dateOfTimestamp ts)])"

definition dateKeys :: "transaction list \<Rightarrow> string list" where
  "dateKeys T = remdups (concat (map dayKeyOf T))"

text \<open>
  The calendar date of a transaction in the time zone of the browser, and the transactions
  whose calendar date there is the UTC date of the timestamp.
\<close>

definition onLocalDate :: "int \<Rightarrow> string \<Rightarrow> transaction \<Rightarrow> bool" where
  "onLocalDate tz k t =
     (case date t of None \<Rightarrow> False | Some ts \<Rightarrow> localDateKey tz (dateOfTimestamp ts) = k)"

definition datesCoincide :: "int \<Rightarrow> transaction \<Rightarrow> bool" where
  "datesCoincide tz t =
     (case date t of
        None \<Rightarrow> True
      | Some ts \<Rightarrow> localDateKey tz (dateOfTimestamp ts) = toISODate (dateOfTimestamp ts))"

definition localDayKeyOf :: "int \<Rightarrow> transaction \<Rightarrow> string list" where
  "localDayKeyOf tz t =
     (case date t of None \<Rightarrow> [] | Some ts \<Rightarrow> [localDateKey tz (dateOfTimestamp ts)])"

definition localDateKeys :: "int \<Rightarrow> transaction list \<Rightarrow> string list" where
  "localDateKeys tz T = remdups (concat (map (localDayKeyOf tz) T))"

text \<open>
  The calendar: leap years, the lengths of the months (month index from 0), the day
  number of the first of January (the \<open>DayFromYear\<close> of the language standard, in the
  proleptic Gregorian calendar), the day number of the first of a month, and its weekday
  (0 for Sunday; day 0, the first of January 1970, was a Thursday).
\<close>

definition isLeapYear :: "int \<Rightarrow> bool" where
  "isLeapYear y \<longleftrightarrow> y mod 4 = 0 \<and> (y mod 100 \<noteq> 0 \<or> y mod 400 = 0)"

definition daysInMonthOf :: "int \<Rightarrow> int \<Rightarrow> int" where
  "daysInMonthOf y m =
     (if m = 1 then (if isLeapYear y then 29 else 28)
      else if m = 3 \<or> m = 5 \<or> m = 8 \<or> m = 10 then 30 else 31)"

definition dayFromYear :: "int \<Rightarrow> int" where
  "dayFromYear y =
     365 * (y - 1970) + (y - 1969) div 4 - (y - 1901) div 100 + (y - 1601) div 400"

definition dayOfFirst :: "int \<Rightarrow> int \<Rightarrow> int" where
  "dayOfFirst y m = dayFromYear y + sum_list (map (daysInMonthOf y) [0..m - 1])"

definition weekdayOfFirst :: "int \<Rightarrow> int \<Rightarrow> nat" where
  "weekdayOfFirst y m = nat ((dayOfFirst y m + 4) mod 7)"

text \<open>Sample data: a transaction with a given amount and date, and the goal of a target.\<close>

definition sample :: "int \<Rightarrow> timestamp option \<Rightarrow> transaction" where
  "sample a d = \<lparr>ident = [], description = [], amount = a,
     ttype = (if 0 < a then Income else Expense), date = d\<rparr>"

definition stamped :: "int \<Rightarrow> timestamp option" where
  "stamped s = Some \<lparr>seconds = s\<rparr>"

definition goalOf :: "int option \<Rightarrow> goal" where
  "goalOf ta = \<lparr>name = ''trip'', targetAmount = ta\<rparr>"

text \<open>
  The scenario of the specification: 50000 and -3000 on 2024-05-01 (12:00 and 13:00 UTC),
  10000 on 2024-05-03 (12:00 UTC).
\<close>

definition scenario :: "transaction list" where
  "scenario = [sample 50000 (stamped 1714564800), sample (- 3000) (stamped 1714568400),
               sample 10000 (stamped 1714737600)]"

text \<open>The scenario with one more transaction, whose server timestamp is still pending.\<close>

definition pendingScenario :: "transaction list" where
  "pendingScenario = scenario @ [sample 700 None]"

text \<open>
  Three incomes of one day, 2024-05-01 at 12:00, 13:00 and 14:00 UTC, the first of
  \<open>2^53\<close>.
\<close>

definition bigDay :: "transaction list" where
  "bigDay = [sample 9007199254740992 (stamped 1714564800), sample 1 (stamped 1714568400),
             sample 1 (stamped 1714572000)]"

text \<open>
  Two transactions made at noon in Japan, on 1 May and on 2 May 2024 (03:00 UTC).
\<close>

definition middays :: "transaction list" where
  "middays = [sample 50000 (stamped 1714532400), sample (- 3000) (stamped 1714618800)]"

section \<open>Arithmetic of Numbers\<close>

lemma round_to_double_exact: "\<bar>n\<bar> \<le> 2 ^ 53 \<Longrightarrow> round_to_double n = n"
  by (simp add: round_to_double_def)

lemma foldl_num_add_exact:
  "\<bar>a\<bar> + sum_list (map abs xs) \<le> 2 ^ 53 \<Longrightarrow> foldl num_add a xs = a + sum_list xs"
proof (induction xs arbitrary: a)
  case Nil
  then show ?case by simp
next
  case (Cons x xs)
  have nn: "0 \<le> sum_list (map abs xs)"
    by (rule sum_list_nonneg) auto
  have "\<bar>a + x\<bar> \<le> 2 ^ 53"
    using Cons.prems nn by simp
  then have step: "num_add a x = a + x"
    by (simp add: num_add_def round_to_double_exact)
  have "\<bar>a + x\<bar> + sum_list (map abs xs) \<le> 2 ^ 53"
    using Cons.prems by simp
  then have "foldl num_add (a + x) xs = a + x + sum_list xs"
    by (rule Cons.IH)
  then show ?case by (simp add: step)
qed

lemma num_sum_exact:
  assumes "sum_list (map abs xs) \<le> 2 ^ 53"
  shows "num_sum xs = sum_list xs"
proof -
  have "\<bar>0::int\<bar> + sum_list (map abs xs) \<le> 2 ^ 53"
    using assms by simp
  then have "foldl num_add 0 xs = 0 + sum_list xs"
    by (rule foldl_num_add_exact)
  then show ?thesis by (simp add: num_sum_def)
qed

lemma num_sum_snoc: "num_sum (xs @ [x]) = num_add (num_sum xs) x"
  by (simp add: num_sum_def)

lemma num_sum_Nil: "num_sum [] = 0"
  by (simp add: num_sum_def)



lemma bit_length_pos: "0 < n \<Longrightarrow> bit_length n = Suc (bit_length (n div 2))"
  by (subst bit_length.simps) simp

lemma bit_length_bounds:
  "0 < n \<Longrightarrow> 2 ^ (bit_length n - 1) \<le> n \<and> n < 2 ^ bit_length n"
proof (induction n rule: bit_length.induct)
  case (1 n)
  show ?case
  proof (cases "n div 2 = 0")
    case True
    then have "n = 1" using "1.prems" by linarith
    then show ?thesis
      by (simp add: bit_length_pos) (simp add: bit_length.simps)
  next
    case False
    then have h: "0 < n div 2" using "1.prems" by linarith
    have np: "\<not> n \<le> 0" using "1.prems" by simp
    from "1.IH" [OF np h]
    have lo: "2 ^ (bit_length (n div 2) - 1) \<le> n div 2"
      and hi: "n div 2 < 2 ^ bit_length (n div 2)" by simp_all
    have bp: "0 < bit_length (n div 2)"
      using h by (simp add: bit_length_pos)
    then have "(2::int) ^ bit_length (n div 2) = 2 * 2 ^ (bit_length (n div 2) - 1)"
      by (cases "bit_length (n div 2)") simp_all
    then have a: "2 ^ bit_length (n div 2) \<le> n"
      using lo by linarith
    have b: "n < 2 * 2 ^ bit_length (n div 2)"
      using hi by linarith
    show ?thesis
      using a b "1.prems" by (simp add: bit_length_pos)
  qed
qed

lemma round_half_even_error: "\<bar>of_int (round_half_even y) - y\<bar> \<le> 1 / 2"
proof -
  have "of_int \<lfloor>y\<rfloor> \<le> y" and "y < of_int \<lfloor>y\<rfloor> + 1"
    by linarith+
  then show ?thesis
    by (auto simp: round_half_even_def Let_def)
qed

lemma binary_exponent_le:
  assumes "0 < x"
  shows "2 powi binary_exponent x \<le> x"
proof -
  obtain a b where q: "quotient_of x = (a, b)"
    by (cases "quotient_of x")
  have b: "0 < b"
    using q by (rule quotient_of_denom_pos)
  have x: "x = of_int a / of_int b"
    using q by (rule quotient_of_div)
  have a: "0 < a"
    using assms b x by (simp add: zero_less_divide_iff)
  define k where "k = int (bit_length a) - int (bit_length b)"
  show ?thesis
  proof (cases "2 powi k \<le> x")
    case True
    then show ?thesis
      by (simp add: binary_exponent_def q k_def [symmetric])
  next
    case False
    have la: "(2::int) ^ (bit_length a - 1) \<le> a"
      using bit_length_bounds [OF a] by simp
    have hb: "b \<le> 2 ^ bit_length b"
      using bit_length_bounds [OF b] by simp
    have pa: "0 < bit_length a"
      using a by (simp add: bit_length_pos)
    have ra: "(2::rat) ^ (bit_length a - 1) \<le> of_int a"
      using la by (metis of_int_le_iff of_int_numeral of_int_power)
    have rb: "(of_int b :: rat) \<le> 2 ^ bit_length b"
      using hb by (metis of_int_le_iff of_int_numeral of_int_power)
    have "2 powi (k - 1) = (2::rat) powi (int (bit_length a - 1) - int (bit_length b))"
      using pa by (simp add: k_def of_nat_diff algebra_simps)
    also have "\<dots> = 2 ^ (bit_length a - 1) / 2 ^ bit_length b"
      by (simp add: power_int_diff)
    also have "\<dots> \<le> of_int a / 2 ^ bit_length b"
      using ra by (simp add: divide_right_mono)
    also have "\<dots> \<le> of_int a / of_int b"
      using rb a b by (simp add: divide_left_mono)
    finally have "2 powi (k - 1) \<le> x"
      by (simp add: x)
    then show ?thesis
      using False by (simp add: binary_exponent_def q k_def [symmetric])
  qed
qed

lemma round_to_double_rat_error:
  "\<bar>round_to_double_rat x - x\<bar> \<le> \<bar>x\<bar> / 2 ^ 53 + 1 / 2 ^ 1075"
proof (cases "x = 0")
  case True
  then show ?thesis by (simp add: round_to_double_rat_def)
next
  case False
  define e where "e = max (binary_exponent \<bar>x\<bar> - 52) (- 1074)"
  define P :: rat where "P = 2 powi e"
  define m where "m = round_half_even (\<bar>x\<bar> / P)"
  have P0: "0 < P"
    by (simp add: P_def)
  have fl: "round_to_double_rat x = sgn x * of_int m * P"
    using False by (simp add: round_to_double_rat_def Let_def m_def P_def e_def)
  have "\<bar>of_int m - \<bar>x\<bar> / P\<bar> \<le> 1 / 2"
    unfolding m_def by (rule round_half_even_error)
  then have "\<bar>of_int m - \<bar>x\<bar> / P\<bar> * P \<le> 1 / 2 * P"
    using P0 by (simp add: mult_right_mono)
  moreover have "\<bar>of_int m - \<bar>x\<bar> / P\<bar> * P = \<bar>of_int m * P - \<bar>x\<bar>\<bar>"
  proof -
    have "\<bar>of_int m - \<bar>x\<bar> / P\<bar> * P = \<bar>(of_int m - \<bar>x\<bar> / P) * P\<bar>"
      using P0 by (simp add: abs_mult)
    also have "(of_int m - \<bar>x\<bar> / P) * P = of_int m * P - \<bar>x\<bar>"
      using P0 by (simp add: left_diff_distrib)
    finally show ?thesis .
  qed
  ultimately have err: "\<bar>of_int m * P - \<bar>x\<bar>\<bar> \<le> P / 2"
    by simp
  have sx: "sgn x * \<bar>x\<bar> = x"
    by (simp add: sgn_if)
  have "\<bar>round_to_double_rat x - x\<bar> = \<bar>sgn x * (of_int m * P - \<bar>x\<bar>)\<bar>"
    by (simp add: fl right_diff_distrib mult.assoc sx)
  also have "\<dots> = \<bar>of_int m * P - \<bar>x\<bar>\<bar>"
    using False by (simp add: abs_mult abs_sgn_eq)
  finally have e1: "\<bar>round_to_double_rat x - x\<bar> \<le> P / 2"
    using err by simp
  have "P / 2 \<le> \<bar>x\<bar> / 2 ^ 53 + 1 / 2 ^ 1075"
  proof (cases "binary_exponent \<bar>x\<bar> - 52 \<le> - 1074")
    case True
    then have "e = - 1074" by (simp add: e_def)
    then have "P / 2 = 1 / 2 ^ 1075"
      by (simp add: P_def power_int_minus field_simps)
    then show ?thesis by simp
  next
    case False
    then have "e = binary_exponent \<bar>x\<bar> - 52" by (simp add: e_def)
    then have "P = 2 powi binary_exponent \<bar>x\<bar> / 2 ^ 52"
      by (simp add: P_def power_int_diff)
    moreover have "2 powi binary_exponent \<bar>x\<bar> \<le> \<bar>x\<bar>"
      using \<open>x \<noteq> 0\<close> by (intro binary_exponent_le) simp
    ultimately have "P \<le> \<bar>x\<bar> / 2 ^ 52"
      by (simp add: divide_right_mono)
    then have "P / 2 \<le> \<bar>x\<bar> / 2 ^ 53"
      by simp
    then show ?thesis by simp
  qed
  then show ?thesis using e1 by linarith
qed

lemma scaled_le: "0 \<le> u \<Longrightarrow> u / 2 ^ n \<le> (u::rat)"
  by (simp add: divide_le_eq_1 field_simps mult_le_cancel_left1)

lemma two_roundings_error:
  fixes q q1 p \<tau> :: rat
  assumes e1: "\<bar>q1 - q\<bar> \<le> \<bar>q\<bar> / 2 ^ 53 + \<tau>"
    and e2: "\<bar>p - q1 * 100\<bar> \<le> \<bar>q1 * 100\<bar> / 2 ^ 53 + \<tau>"
    and t0: "0 \<le> \<tau>"
  shows "\<bar>p - q * 100\<bar> \<le> \<bar>q * 100\<bar> / 2 ^ 51 + 201 * \<tau>"
proof -
  define x where "x = q * 100"
  define y where "y = q1 * 100"
  define a where "a = \<bar>x\<bar> / 2 ^ 53"
  have a0: "0 \<le> a"
    by (simp add: a_def)
  have a4: "\<bar>x\<bar> / 2 ^ 51 = 4 * a"
    by (simp add: a_def)
  have yx: "\<bar>y - x\<bar> \<le> a + 100 * \<tau>"
  proof -
    have "\<bar>y - x\<bar> = 100 * \<bar>q1 - q\<bar>"
      by (simp add: x_def y_def abs_if)
    also have "\<dots> \<le> 100 * (\<bar>q\<bar> / 2 ^ 53 + \<tau>)"
      using e1 by simp
    also have "\<dots> = a + 100 * \<tau>"
      by (simp add: a_def x_def abs_if)
    finally show ?thesis .
  qed
  have "\<bar>y\<bar> \<le> \<bar>x\<bar> + \<bar>y - x\<bar>"
    by linarith
  then have b: "\<bar>y\<bar> \<le> \<bar>x\<bar> + (a + 100 * \<tau>)"
    using yx by linarith
  have "\<bar>y\<bar> / 2 ^ 53 \<le> (\<bar>x\<bar> + (a + 100 * \<tau>)) / 2 ^ 53"
    using b by (rule divide_right_mono) simp
  also have "\<dots> = a + (a + 100 * \<tau>) / 2 ^ 53"
    by (simp add: a_def add_divide_distrib)
  also have "\<dots> \<le> a + (a + 100 * \<tau>)"
    using a0 t0 by (simp add: scaled_le)
  finally have c: "\<bar>y\<bar> / 2 ^ 53 \<le> 2 * a + 100 * \<tau>"
    by simp
  have py: "\<bar>p - y\<bar> \<le> \<bar>y\<bar> / 2 ^ 53 + \<tau>"
    using e2 by (simp add: y_def)
  have "\<bar>p - x\<bar> \<le> \<bar>p - y\<bar> + \<bar>y - x\<bar>"
    by linarith
  then have "\<bar>p - x\<bar> \<le> 3 * a + 201 * \<tau>"
    using py c yx by linarith
  then show ?thesis
    unfolding x_def [symmetric] a4 using a0 by linarith
qed

lemma clamp_error:
  fixes p x \<epsilon> :: rat
  assumes "\<bar>p - x\<bar> \<le> \<bar>x\<bar> / 2 ^ 51 + \<epsilon>" and "0 \<le> \<epsilon>" and "\<epsilon> \<le> 1 / 2 ^ 50"
  shows "\<bar>max 0 (min 100 p) - max 0 (min 100 x)\<bar> \<le> 1 / 2 ^ 44"
proof -
  define a where "a = \<bar>x\<bar> / 2 ^ 51"
  have a0: "0 \<le> a" and ax: "a \<le> \<bar>x\<bar>"
    by (simp_all add: a_def scaled_le)
  have px: "\<bar>p - x\<bar> \<le> a + \<epsilon>"
    using assms(1) by (simp add: a_def)
  have k: "(100::rat) / 2 ^ 51 + 1 / 2 ^ 50 \<le> 1 / 2 ^ 44"
    by simp
  consider "x \<le> 0" | "0 < x" "x < 100" | "100 \<le> x"
    by linarith
  then show ?thesis
  proof cases
    case 1
    then have "p \<le> \<epsilon>"
      using px ax by linarith
    then show ?thesis
      using 1 assms(2,3) k by (auto simp: max_def min_def)
  next
    case 2
    then have "a \<le> 100 / 2 ^ 51"
      by (simp add: a_def divide_right_mono)
    then have "\<bar>p - x\<bar> \<le> 1 / 2 ^ 44"
      using px assms(3) k by linarith
    then show ?thesis
      using 2 by (auto simp: max_def min_def)
  next
    case 3
    have "x - 100 = \<bar>x - 100\<bar>" using 3 by simp
    have "a = 100 / 2 ^ 51 + (x - 100) / 2 ^ 51"
      using 3 by (simp add: a_def diff_divide_distrib)
    moreover have "(x - 100) / 2 ^ 51 \<le> x - 100"
      using 3 by (simp add: scaled_le)
    ultimately have "x - a \<ge> 100 - 100 / 2 ^ 51"
      by linarith
    then have "100 - 1 / 2 ^ 44 \<le> p"
      using px assms(3) k by linarith
    then show ?thesis
      using 3 by (auto simp: max_def min_def)
  qed
qed

lemma percentage_error:
  "\<bar>max 0 (min 100 (num_mul (num_div b t) 100)) - max 0 (min 100 (of_int b / of_int t * 100))\<bar>
   \<le> 1 / 2 ^ 44"
proof -
  define q :: rat where "q = of_int b / of_int t"
  define q1 where "q1 = num_div b t"
  define p where "p = num_mul q1 100"
  define \<tau> :: rat where "\<tau> = 1 / 2 ^ 1075"
  have t0: "0 \<le> \<tau>"
    by (simp add: \<tau>_def)
  have tb: "201 * \<tau> \<le> 1 / 2 ^ 50"
    by (simp add: \<tau>_def)
  have e1: "\<bar>q1 - q\<bar> \<le> \<bar>q\<bar> / 2 ^ 53 + \<tau>"
    unfolding q1_def q_def num_div_def \<tau>_def by (rule round_to_double_rat_error)
  have e2: "\<bar>p - q1 * 100\<bar> \<le> \<bar>q1 * 100\<bar> / 2 ^ 53 + \<tau>"
    unfolding p_def num_mul_def \<tau>_def by (rule round_to_double_rat_error)
  have t1: "0 \<le> 201 * \<tau>"
    using t0 by simp
  have "\<bar>p - q * 100\<bar> \<le> \<bar>q * 100\<bar> / 2 ^ 51 + 201 * \<tau>"
    using e1 e2 t0 by (rule two_roundings_error)
  then have "\<bar>max 0 (min 100 p) - max 0 (min 100 (q * 100))\<bar> \<le> 1 / 2 ^ 44"
    using t1 tb by (rule clamp_error)
  then show ?thesis
    by (simp only: p_def q1_def q_def)
qed


lemma round_2p53_1: "round_to_double 9007199254740993 = 9007199254740992"
  by code_simp

lemma round_2p53_2: "round_to_double 9007199254740994 = 9007199254740994"
  by code_simp

section \<open>Evaluation of the sample data\<close>

lemma pad_digits_2: "pad_digits 2 n = [digit_char (n div 10 mod 10), digit_char (n mod 10)]"
  by (simp add: numeral_2_eq_2)

lemma pad_digits_4:
  "pad_digits 4 n = [digit_char (n div 10 div 10 div 10 mod 10),
                     digit_char (n div 10 div 10 mod 10),
                     digit_char (n div 10 mod 10), digit_char (n mod 10)]"
proof -
  have "pad_digits (Suc (Suc (Suc (Suc 0)))) n
        = [digit_char (n div 10 div 10 div 10 mod 10), digit_char (n div 10 div 10 mod 10),
           digit_char (n div 10 mod 10), digit_char (n mod 10)]"
    by simp
  moreover have "(4::nat) = Suc (Suc (Suc (Suc 0)))"
    by simp
  ultimately show ?thesis by (simp only:)
qed

lemmas date_eval = toISODate_def msPerDay_def civil_from_days_def digit_char_def
  pad_digits_2 pad_digits_4

lemma key_epoch: "toISODate 0 = ''1970-01-01''"
  by (simp add: date_eval cong: let_weak_cong)

lemma key_May1: "toISODate 1714521600000 = ''2024-05-01''"
  by (simp add: date_eval cong: let_weak_cong)

lemma key_May1_12h: "toISODate 1714564800000 = ''2024-05-01''"
  by (simp add: date_eval cong: let_weak_cong)

lemma key_May1_13h: "toISODate 1714568400000 = ''2024-05-01''"
  by (simp add: date_eval cong: let_weak_cong)

lemma key_May1_14h: "toISODate 1714572000000 = ''2024-05-01''"
  by (simp add: date_eval cong: let_weak_cong)

lemma key_May1_20h: "toISODate 1714593600000 = ''2024-05-01''"
  by (simp add: date_eval cong: let_weak_cong)

lemma key_May2: "toISODate 1714608000000 = ''2024-05-02''"
  by (simp add: date_eval cong: let_weak_cong)

lemma key_May2_05h: "toISODate 1714626000000 = ''2024-05-02''"
  by (simp add: date_eval cong: let_weak_cong)

lemma key_May3: "toISODate 1714694400000 = ''2024-05-03''"
  by (simp add: date_eval cong: let_weak_cong)

lemma key_May3_12h: "toISODate 1714737600000 = ''2024-05-03''"
  by (simp add: date_eval cong: let_weak_cong)

lemmas sample_keys = key_epoch key_May1 key_May1_12h key_May1_13h key_May1_14h key_May1_20h
  key_May2 key_May2_05h key_May3 key_May3_12h

lemma amount_sample: "amount (sample a d) = a"
  by (simp add: sample_def)

lemma date_sample: "date (sample a d) = d"
  by (simp add: sample_def)

lemma onDate_sample: "onDate k (sample a (stamped s)) \<longleftrightarrow> toISODate (s * 1000) = k"
  by (simp add: onDate_def sample_def stamped_def dateOfTimestamp_def)

lemma onDate_sample_None: "\<not> onDate k (sample a None)"
  by (simp add: onDate_def sample_def)

lemma secondsOf_sample: "secondsOf (sample a (stamped s)) = s"
  by (simp add: secondsOf_def sample_def stamped_def)

lemma dayKeyOf_sample: "dayKeyOf (sample a (stamped s)) = [toISODate (s * 1000)]"
  by (simp add: dayKeyOf_def sample_def stamped_def dateOfTimestamp_def)

lemma dayKeyOf_sample_None: "dayKeyOf (sample a None) = []"
  by (simp add: dayKeyOf_def sample_def)

lemma addToDay_sample:
  "addToDay data (sample a (stamped s)) =
     (if s = 0 then data
      else let dateKey = toISODate (s * 1000);
               cur = (case data dateKey of None \<Rightarrow> \<lparr>income = 0, expense = 0\<rparr> | Some a \<Rightarrow> a)
           in if 0 < a then data(dateKey \<mapsto> cur\<lparr>income := num_add (income cur) a\<rparr>)
              else data(dateKey \<mapsto> cur\<lparr>expense := num_add (expense cur) a\<rparr>))"
  by (simp add: addToDay_def sample_def stamped_def dateOfTimestamp_def)

lemma addToDay_sample_None: "addToDay data (sample a None) = data"
  by (simp add: addToDay_def sample_def)

lemmas sample_eval = amount_sample date_sample onDate_sample onDate_sample_None
  secondsOf_sample dayKeyOf_sample dayKeyOf_sample_None addToDay_sample addToDay_sample_None

lemma num_add_small: "\<bar>a + b\<bar> \<le> 2 ^ 53 \<Longrightarrow> num_add a b = a + b"
  by (simp add: num_add_def round_to_double_def)

lemma key_May1_03h: "toISODate 1714532400000 = ''2024-05-01''"
  by (simp add: date_eval cong: let_weak_cong)

lemma key_May1_15h: "toISODate 1714575600000 = ''2024-05-01''"
  by (simp add: date_eval cong: let_weak_cong)

lemma key_May2_03h: "toISODate 1714618800000 = ''2024-05-02''"
  by (simp add: date_eval cong: let_weak_cong)

lemma key_May2_12h: "toISODate 1714651200000 = ''2024-05-02''"
  by (simp add: date_eval cong: let_weak_cong)

lemma key_May1_21h: "toISODate 1714597200000 = ''2024-05-01''"
  by (simp add: date_eval cong: let_weak_cong)

lemma key_May1_22h: "toISODate 1714600800000 = ''2024-05-01''"
  by (simp add: date_eval cong: let_weak_cong)

lemma key_May1_23h: "toISODate 1714604400000 = ''2024-05-01''"
  by (simp add: date_eval cong: let_weak_cong)

lemma key_May3_21h: "toISODate 1714770000000 = ''2024-05-03''"
  by (simp add: date_eval cong: let_weak_cong)

lemma key_May1_05h: "toISODate 1714539600000 = ''2024-05-01''"
  by (simp add: date_eval cong: let_weak_cong)

lemma key_May1_07h: "toISODate 1714546800000 = ''2024-05-01''"
  by (simp add: date_eval cong: let_weak_cong)

lemma key_May1_08h: "toISODate 1714550400000 = ''2024-05-01''"
  by (simp add: date_eval cong: let_weak_cong)

lemma key_May3_05h: "toISODate 1714712400000 = ''2024-05-03''"
  by (simp add: date_eval cong: let_weak_cong)

lemma key_May3_07h: "toISODate 1714719600000 = ''2024-05-03''"
  by (simp add: date_eval cong: let_weak_cong)

lemmas more_keys = key_May1_03h key_May1_15h key_May2_03h key_May2_12h key_May1_21h
  key_May1_22h key_May1_23h key_May3_21h key_May1_05h key_May1_07h key_May1_08h
  key_May3_05h key_May3_07h

lemma newDate_Japan_May2: "newDate 540 2024 4 2 = 1714575600000"
  by (simp add: newDate_def days_from_civil_def msPerDay_def cong: let_weak_cong)

lemma newDate_west_May1: "newDate (- 300) 2024 4 1 = 1714539600000"
  by (simp add: newDate_def days_from_civil_def msPerDay_def cong: let_weak_cong)

lemma newDate_west_May3: "newDate (- 300) 2024 4 3 = 1714712400000"
  by (simp add: newDate_def days_from_civil_def msPerDay_def cong: let_weak_cong)

lemma onLocalDate_sample:
  "onLocalDate tz k (sample a (stamped s)) \<longleftrightarrow> toISODate (s * 1000 + tz * 60000) = k"
  by (simp add: onLocalDate_def sample_def stamped_def dateOfTimestamp_def localDateKey_def)

lemma onLocalDate_sample_None: "\<not> onLocalDate tz k (sample a None)"
  by (simp add: onLocalDate_def sample_def)

lemma datesCoincide_sample:
  "datesCoincide tz (sample a (stamped s))
   \<longleftrightarrow> toISODate (s * 1000 + tz * 60000) = toISODate (s * 1000)"
  by (simp add: datesCoincide_def sample_def stamped_def dateOfTimestamp_def localDateKey_def)

lemma datesCoincide_sample_None: "datesCoincide tz (sample a None)"
  by (simp add: datesCoincide_def sample_def)

lemma localDayKeyOf_sample:
  "localDayKeyOf tz (sample a (stamped s)) = [toISODate (s * 1000 + tz * 60000)]"
  by (simp add: localDayKeyOf_def sample_def stamped_def dateOfTimestamp_def localDateKey_def)

lemma localDayKeyOf_sample_None: "localDayKeyOf tz (sample a None) = []"
  by (simp add: localDayKeyOf_def sample_def)

lemmas local_eval = onLocalDate_sample onLocalDate_sample_None datesCoincide_sample
  datesCoincide_sample_None localDayKeyOf_sample localDayKeyOf_sample_None

section \<open>The balance\<close>

lemma currentBalance_num_sum: "currentBalance T = num_sum (map amount T)"
  by (simp add: currentBalance_def num_sum_def foldl_map)

lemma currentBalance_sum:
  assumes "within_exact_range T"
  shows "currentBalance T = sum_list (map amount T)"
proof -
  have "sum_list (map abs (map amount T)) \<le> 2 ^ 53"
    using assms by (simp add: within_exact_range_def comp_def)
  then have "num_sum (map amount T) = sum_list (map amount T)"
    by (rule num_sum_exact)
  then show ?thesis by (simp add: currentBalance_num_sum)
qed

lemma within_exact_range_mset:
  assumes "mset T' = mset T"
  shows "within_exact_range T' = within_exact_range T"
proof -
  have "mset (map (\<lambda>t. \<bar>amount t\<bar>) T') = mset (map (\<lambda>t. \<bar>amount t\<bar>) T)"
    using assms by simp
  then have "sum_mset (mset (map (\<lambda>t. \<bar>amount t\<bar>) T'))
             = sum_mset (mset (map (\<lambda>t. \<bar>amount t\<bar>) T))"
    by (rule arg_cong)
  then have "sum_list (map (\<lambda>t. \<bar>amount t\<bar>) T') = sum_list (map (\<lambda>t. \<bar>amount t\<bar>) T)"
    by (simp only: sum_mset_sum_list)
  then show ?thesis by (simp add: within_exact_range_def)
qed

lemma sum_amount_mset:
  assumes "mset T' = mset T"
  shows "sum_list (map amount T') = sum_list (map amount T)"
proof -
  have "mset (map amount T') = mset (map amount T)"
    using assms by simp
  then have "sum_mset (mset (map amount T')) = sum_mset (mset (map amount T))"
    by (rule arg_cong)
  then show ?thesis by (simp only: sum_mset_sum_list)
qed

text \<open>
  Claim C1, as the code has it. In the exact regime the balance is the exact arithmetic sum
  of the amounts, and every reordering of the transactions gives the same balance.
\<close>

theorem currentBalance_exact:
  assumes "within_exact_range T"
  shows "currentBalance T = sum_list (map amount T)
         \<and> (\<forall>T'. mset T' = mset T \<longrightarrow> currentBalance T' = currentBalance T)"
proof (intro conjI allI impI)
  show "currentBalance T = sum_list (map amount T)"
    using assms by (rule currentBalance_sum)
next
  fix T' assume p: "mset T' = mset T"
  have "within_exact_range T'"
    using assms within_exact_range_mset [OF p] by simp
  then have "currentBalance T' = sum_list (map amount T')"
    by (rule currentBalance_sum)
  also have "\<dots> = sum_list (map amount T)"
    using p by (rule sum_amount_mset)
  also have "\<dots> = currentBalance T"
    using assms by (simp only: currentBalance_sum)
  finally show "currentBalance T' = currentBalance T" .
qed

theorem currentBalance_exact_witness:
  "within_exact_range scenario
   \<and> currentBalance scenario = 57000
   \<and> currentBalance (rev scenario) = currentBalance scenario"
proof -
  have r: "within_exact_range scenario"
    by (simp add: within_exact_range_def scenario_def sample_def)
  have s: "sum_list (map amount scenario) = 57000"
    by (simp add: scenario_def sample_def)
  have m: "mset (rev scenario) = mset scenario"
    by simp
  show ?thesis
    using r s m currentBalance_exact [OF r] by simp
qed

text \<open>
  Claim C1, as stated, fails beyond the exact regime: with the amounts \<open>2^53\<close>, 1 and
  \<open>- 2^53\<close> the balance is 0 and not the sum 1, and listing the same transactions in
  another order gives 1.
\<close>

theorem currentBalance_drift_counterexample:
  "currentBalance [sample 9007199254740992 None, sample 1 None, sample (- 9007199254740992) None]
     \<noteq> sum_list (map amount
           [sample 9007199254740992 None, sample 1 None, sample (- 9007199254740992) None])
   \<and> currentBalance [sample 9007199254740992 None, sample (- 9007199254740992) None, sample 1 None]
     \<noteq> currentBalance
           [sample 9007199254740992 None, sample 1 None, sample (- 9007199254740992) None]"
  by code_simp

section \<open>Progress and the remaining amount\<close>

text \<open>
  Claim C2, as the code has it. The progress is 0 when there is no goal or the target
  amount is missing or 0. Otherwise it is the clamp to the interval from 0 to 100 of the
  product of the quotient of balance and target with 100, quotient and product each
  rounded to a double: it differs from the clamp of the exact value by at most \<open>2^-44\<close>.
  In every case it lies between 0 and 100.
\<close>

theorem progress_accuracy:
  "(g = None \<or> (\<exists>gl. g = Some gl \<and> (targetAmount gl = None \<or> targetAmount gl = Some 0))
      \<longrightarrow> progress balance g = 0)
   \<and> (\<forall>gl ta. g = Some gl \<and> targetAmount gl = Some ta \<and> ta \<noteq> 0
      \<longrightarrow> \<bar>progress balance g - max 0 (min 100 (of_int balance / of_int ta * 100))\<bar>
          \<le> 1 / 2 ^ 44)
   \<and> 0 \<le> progress balance g \<and> progress balance g \<le> 100"
proof (intro conjI allI impI)
  show "progress balance g = 0"
    if "g = None \<or> (\<exists>gl. g = Some gl \<and> (targetAmount gl = None \<or> targetAmount gl = Some 0))"
    using that by (auto simp: progress_def)
  show "\<bar>progress balance g - max 0 (min 100 (of_int balance / of_int ta * 100))\<bar> \<le> 1 / 2 ^ 44"
    if "g = Some gl \<and> targetAmount gl = Some ta \<and> ta \<noteq> 0" for gl ta
    using that percentage_error [of balance ta] by (simp add: progress_def)
  show "0 \<le> progress balance g"
    by (simp add: progress_def split: option.splits)
  show "progress balance g \<le> 100"
    by (simp add: progress_def split: option.splits)
qed

theorem progress_accuracy_witness:
  "progress 0 None = 0
   \<and> progress 50000 (Some (goalOf None)) = 0
   \<and> progress 50000 (Some (goalOf (Some 0))) = 0
   \<and> \<bar>progress 57000 (Some (goalOf (Some 100000))) - 57\<bar> \<le> 1 / 2 ^ 44
   \<and> \<bar>progress 250000 (Some (goalOf (Some 100000))) - 100\<bar> \<le> 1 / 2 ^ 44"
proof -
  have t: "targetAmount (goalOf None) = None" "targetAmount (goalOf (Some 0)) = Some 0"
    "targetAmount (goalOf (Some 100000)) = Some 100000"
    by (simp_all add: goalOf_def)
  have a: "progress 0 None = 0"
    using progress_accuracy [of None 0] by blast
  have b: "progress 50000 (Some (goalOf None)) = 0"
    using progress_accuracy [of "Some (goalOf None)" 50000] t(1) by blast
  have c: "progress 50000 (Some (goalOf (Some 0))) = 0"
    using progress_accuracy [of "Some (goalOf (Some 0))" 50000] t(2) by blast
  have n: "(100000::int) \<noteq> 0"
    by simp
  have "\<bar>progress 57000 (Some (goalOf (Some 100000)))
         - max 0 (min 100 (of_int 57000 / of_int 100000 * 100))\<bar> \<le> 1 / 2 ^ 44"
    using progress_accuracy [of "Some (goalOf (Some 100000))" 57000] t(3) n by blast
  then have d: "\<bar>progress 57000 (Some (goalOf (Some 100000))) - 57\<bar> \<le> 1 / 2 ^ 44"
    by simp
  have "\<bar>progress 250000 (Some (goalOf (Some 100000)))
         - max 0 (min 100 (of_int 250000 / of_int 100000 * 100))\<bar> \<le> 1 / 2 ^ 44"
    using progress_accuracy [of "Some (goalOf (Some 100000))" 250000] t(3) n by blast
  then have e: "\<bar>progress 250000 (Some (goalOf (Some 100000))) - 100\<bar> \<le> 1 / 2 ^ 44"
    by simp
  show ?thesis
    using a b c d e by blast
qed

text \<open>
  Claim C2, as stated, fails: for the balance 57000 and the target 100000 the exact
  percentage is 57, and the progress is \<open>57 - 2^-47\<close>, the double shown as
  56.99999999999999.
\<close>

theorem progress_rounding_counterexample:
  "progress 57000 (Some (goalOf (Some 100000))) = 8022036836253695 / 140737488355328
   \<and> max 0 (min 100 (of_int 57000 / of_int 100000 * 100)) = (57::rat)"
  by code_simp




section \<open>The transactions of a day\<close>

lemma mset_dailyTransactions:
  "mset (dailyTransactions d T) = mset (filter (onDate (toISODate d)) T)"
  by (simp add: dailyTransactions_def)

lemma sorted_dailyTransactions:
  "sorted_wrt (\<lambda>a b. secondsOf b \<le> secondsOf a) (dailyTransactions d T)"
proof -
  have "sorted (map (\<lambda>t. - secondsOf t) (dailyTransactions d T))"
    by (simp add: dailyTransactions_def)
  then show ?thesis
    by (simp add: sorted_map)
qed

text \<open>
  Claim C4 at one input. In Japan the calendar passes local midnight of 2 May 2024 for
  the cell of day 2. Of two transactions made at noon of 1 May and at noon of 2 May,
  local time, the second has the calendar date of that cell, and the list for the cell
  holds the first.
\<close>

theorem dailyTransactions_evaluation:
  "localDateKey 540 (newDate 540 2024 4 2) = ''2024-05-02''
   \<and> filter (onLocalDate 540 ''2024-05-02'') middays = [sample (- 3000) (stamped 1714618800)]
   \<and> dailyTransactions (newDate 540 2024 4 2) middays = [sample 50000 (stamped 1714532400)]"
  by (simp add: newDate_Japan_May2 localDateKey_def dailyTransactions_def middays_def
      local_eval sample_eval sample_keys more_keys)

lemma onDate_unique: "onDate k t \<Longrightarrow> onDate k' t \<Longrightarrow> k = k'"
  by (auto simp: onDate_def split: option.splits)

lemma onDate_dated: "onDate k t \<Longrightarrow> dated t"
  by (auto simp: onDate_def dated_def split: option.splits)

lemma dated_onDate: "dated t \<Longrightarrow> \<exists>k. onDate k t"
  by (auto simp: onDate_def dated_def split: option.splits)

lemma filter_mset_disjoint_union:
  assumes "\<And>x. \<not> (P x \<and> Q x)"
  shows "filter_mset P M + filter_mset Q M = filter_mset (\<lambda>x. P x \<or> Q x) M"
  using assms by (intro multiset_eqI) auto

lemma mset_bucketsOver:
  assumes "distinct (map toISODate ds)"
  shows "mset (bucketsOver ds T)
         = filter_mset (\<lambda>t. \<exists>d\<in>set ds. onDate (toISODate d) t) (mset T)"
  using assms
proof (induction ds)
  case Nil
  show ?case by (simp add: bucketsOver_def)
next
  case (Cons d ds)
  have notin: "toISODate d \<notin> toISODate ` set ds" and dist: "distinct (map toISODate ds)"
    using Cons.prems by simp_all
  have disj: "\<not> (onDate (toISODate d) t \<and> (\<exists>e\<in>set ds. onDate (toISODate e) t))" for t
    using notin onDate_unique by blast
  have "mset (bucketsOver (d # ds) T)
        = mset (dailyTransactions d T) + mset (bucketsOver ds T)"
    by (simp add: bucketsOver_def)
  also have "\<dots> = filter_mset (onDate (toISODate d)) (mset T)
                   + filter_mset (\<lambda>t. \<exists>e\<in>set ds. onDate (toISODate e) t) (mset T)"
    by (simp add: mset_dailyTransactions Cons.IH [OF dist])
  also have "\<dots> = filter_mset (\<lambda>t. onDate (toISODate d) t
                                    \<or> (\<exists>e\<in>set ds. onDate (toISODate e) t)) (mset T)"
    using disj by (rule filter_mset_disjoint_union)
  also have "\<dots> = filter_mset (\<lambda>t. \<exists>e\<in>set (d # ds). onDate (toISODate e) t) (mset T)"
    by simp
  finally show ?case .
qed

lemma set_dayKeyOf: "k \<in> set (dayKeyOf t) \<longleftrightarrow> onDate k t"
  by (cases "date t") (auto simp: dayKeyOf_def onDate_def)

lemma set_dateKeys: "set (dateKeys T) = {k. \<exists>t\<in>set T. onDate k t}"
  by (auto simp: dateKeys_def set_dayKeyOf)

lemma bucketsOver_day_keys:
  assumes "distinct (map toISODate ds)" and "set (map toISODate ds) = set (dateKeys T)"
  shows "mset (bucketsOver ds T) = mset (filter dated T)
         \<and> length (bucketsOver ds T) = length (filter dated T)"
proof -
  have cover: "(\<exists>d\<in>set ds. onDate (toISODate d) t) \<longleftrightarrow> dated t" if "t \<in> set T" for t
  proof
    assume "\<exists>d\<in>set ds. onDate (toISODate d) t"
    then show "dated t" using onDate_dated by blast
  next
    assume "dated t"
    then obtain k where k: "onDate k t" using dated_onDate by blast
    then have "k \<in> set (dateKeys T)"
      using that by (auto simp: set_dateKeys)
    then have "k \<in> toISODate ` set ds"
      using assms(2) by simp
    then show "\<exists>d\<in>set ds. onDate (toISODate d) t"
      using k by blast
  qed
  have "mset (bucketsOver ds T)
        = filter_mset (\<lambda>t. \<exists>d\<in>set ds. onDate (toISODate d) t) (mset T)"
    using assms(1) by (rule mset_bucketsOver)
  also have "\<dots> = filter_mset dated (mset T)"
    using cover by (intro filter_mset_cong) auto
  also have "\<dots> = mset (filter dated T)"
    by simp
  finally have m: "mset (bucketsOver ds T) = mset (filter dated T)" .
  then have "length (bucketsOver ds T) = length (filter dated T)"
    by (rule mset_eq_length)
  then show ?thesis using m by simp
qed

lemma onLocalDate_onDate:
  "datesCoincide tz t \<Longrightarrow> onLocalDate tz k t \<longleftrightarrow> onDate k t"
  by (auto simp: datesCoincide_def onLocalDate_def onDate_def split: option.splits)

lemma filter_onLocalDate:
  assumes "\<forall>t\<in>set T. datesCoincide tz t"
  shows "filter (onLocalDate tz k) T = filter (onDate k) T"
  using assms by (intro filter_cong) (auto simp: onLocalDate_onDate)

lemma localDayKeyOf_dayKeyOf:
  "datesCoincide tz t \<Longrightarrow> localDayKeyOf tz t = dayKeyOf t"
  by (auto simp: datesCoincide_def localDayKeyOf_def dayKeyOf_def split: option.splits)

lemma localDateKeys_dateKeys:
  assumes "\<forall>t\<in>set T. datesCoincide tz t"
  shows "localDateKeys tz T = dateKeys T"
proof -
  have "map (localDayKeyOf tz) T = map dayKeyOf T"
    using assms by (intro map_cong) (auto simp: localDayKeyOf_dayKeyOf)
  then show ?thesis
    by (simp only: localDateKeys_def dateKeys_def)
qed

text \<open>
  Claim C7, as the code has it. Take dates with pairwise distinct calendar dates that are
  the calendar dates present in the list, where no date and no timestamp has a local
  calendar date different from its UTC date. Then the per-date lists together hold exactly
  the dated transactions, each once: their total length is the number of dated
  transactions.
\<close>

theorem bucketsOver_calendar_dates:
  assumes "distinct (map (localDateKey tz) ds)"
    and "set (map (localDateKey tz) ds) = set (localDateKeys tz T)"
    and "\<forall>d\<in>set ds. localDateKey tz d = toISODate d"
    and "\<forall>t\<in>set T. datesCoincide tz t"
  shows "mset (bucketsOver ds T) = mset (filter dated T)
         \<and> length (bucketsOver ds T) = length (filter dated T)"
proof -
  have m: "map (localDateKey tz) ds = map toISODate ds"
    using assms(3) by (intro map_cong) auto
  have d: "distinct (map toISODate ds)"
    using assms(1) by (simp only: m)
  have c: "set (map toISODate ds) = set (dateKeys T)"
    using assms(2) by (simp only: m localDateKeys_dateKeys [OF assms(4)])
  show ?thesis
    using d c by (rule bucketsOver_day_keys)
qed

theorem bucketsOver_calendar_dates_witness:
  "map (localDateKey (- 300)) [newDate (- 300) 2024 4 1, newDate (- 300) 2024 4 3]
     = [''2024-05-01'', ''2024-05-03'']
   \<and> localDateKeys (- 300) pendingScenario = [''2024-05-01'', ''2024-05-03'']
   \<and> map toISODate [newDate (- 300) 2024 4 1, newDate (- 300) 2024 4 3]
       = [''2024-05-01'', ''2024-05-03'']
   \<and> filter (datesCoincide (- 300)) pendingScenario = pendingScenario
   \<and> length (bucketsOver [newDate (- 300) 2024 4 1, newDate (- 300) 2024 4 3] pendingScenario)
       = 3"
proof -
  define ds where "ds = [newDate (- 300) 2024 4 1, newDate (- 300) 2024 4 3]"
  have l: "map (localDateKey (- 300)) ds = [''2024-05-01'', ''2024-05-03'']"
    by (simp add: ds_def newDate_west_May1 newDate_west_May3 localDateKey_def sample_keys)
  have u: "map toISODate ds = [''2024-05-01'', ''2024-05-03'']"
    by (simp add: ds_def newDate_west_May1 newDate_west_May3 more_keys)
  have k: "localDateKeys (- 300) pendingScenario = [''2024-05-01'', ''2024-05-03'']"
    by (simp add: localDateKeys_def pendingScenario_def scenario_def local_eval more_keys)
  have c: "filter (datesCoincide (- 300)) pendingScenario = pendingScenario"
    by (simp add: pendingScenario_def scenario_def local_eval sample_keys more_keys)
  have h1: "distinct (map (localDateKey (- 300)) ds)"
    unfolding l by simp
  have h2: "set (map (localDateKey (- 300)) ds) = set (localDateKeys (- 300) pendingScenario)"
    unfolding l k by simp
  have h3: "\<forall>d\<in>set ds. localDateKey (- 300) d = toISODate d"
    using l u by (simp add: ds_def)
  have h4: "\<forall>t\<in>set pendingScenario. datesCoincide (- 300) t"
    using c by (simp add: filter_id_conv)
  have n: "length (filter dated pendingScenario) = 3"
    by (simp add: pendingScenario_def scenario_def sample_def stamped_def dated_def)
  have "length (bucketsOver ds pendingScenario) = 3"
    using bucketsOver_calendar_dates [OF h1 h2 h3 h4] n by simp
  then show ?thesis
    using l u k c unfolding ds_def by blast
qed

text \<open>
  Claim C7, as stated, fails when a transaction has no date: the pending transaction is in
  no per-date list, so the lists over the two calendar dates present, as the calendar of
  a browser 300 minutes west of UTC passes them, hold 3 of the 4 transactions.
\<close>

theorem bucketsOver_cardinality_counterexample:
  "map (localDateKey (- 300)) [newDate (- 300) 2024 4 1, newDate (- 300) 2024 4 3]
     = localDateKeys (- 300) pendingScenario
   \<and> distinct (localDateKeys (- 300) pendingScenario)
   \<and> length (bucketsOver [newDate (- 300) 2024 4 1, newDate (- 300) 2024 4 3] pendingScenario)
       = 3
   \<and> length pendingScenario = 4"
  by (simp add: newDate_west_May1 newDate_west_May3 localDateKey_def localDateKeys_def
      bucketsOver_def dailyTransactions_def pendingScenario_def scenario_def
      local_eval sample_eval sample_keys more_keys)

section \<open>The daily aggregates\<close>

lemma addToDay_other:
  "bucketKey t \<noteq> Some k \<Longrightarrow> addToDay data t k = data k"
  by (auto simp: addToDay_def bucketKey_def Let_def split: option.splits if_splits)

lemma addToDay_same:
  assumes "bucketKey t = Some k"
  shows "addToDay data t k =
           Some (let cur = (case data k of None \<Rightarrow> \<lparr>income = 0, expense = 0\<rparr> | Some a \<Rightarrow> a)
                 in if 0 < amount t then cur\<lparr>income := num_add (income cur) (amount t)\<rparr>
                    else cur\<lparr>expense := num_add (expense cur) (amount t)\<rparr>)"
  using assms
  by (auto simp: addToDay_def bucketKey_def Let_def split: option.splits if_splits)

lemma dailyData_snoc: "dailyData (T @ [t]) = addToDay (dailyData T) t"
  by (simp add: dailyData_def)

lemma aggregateOf_snoc:
  "aggregateOf (B @ [t]) =
     Some (let cur = (case aggregateOf B of None \<Rightarrow> \<lparr>income = 0, expense = 0\<rparr> | Some a \<Rightarrow> a)
           in if 0 < amount t then cur\<lparr>income := num_add (income cur) (amount t)\<rparr>
              else cur\<lparr>expense := num_add (expense cur) (amount t)\<rparr>)"
  by (simp add: aggregateOf_def num_sum_snoc num_sum_Nil Let_def)

lemma dailyData_aggregateOf:
  "dailyData T k = aggregateOf (filter (\<lambda>t. bucketKey t = Some k) T)"
proof (induction T rule: rev_induct)
  case Nil
  show ?case by (simp add: dailyData_def aggregateOf_def)
next
  case (snoc t T)
  show ?case
  proof (cases "bucketKey t = Some k")
    case True
    then have f: "filter (\<lambda>t. bucketKey t = Some k) (T @ [t])
                   = filter (\<lambda>t. bucketKey t = Some k) T @ [t]"
      by simp
    show ?thesis
      unfolding f aggregateOf_snoc dailyData_snoc addToDay_same [OF True] snoc.IH ..
  next
    case False
    then show ?thesis
      by (simp add: dailyData_snoc addToDay_other snoc.IH)
  qed
qed

text \<open>In the exact regime the accumulated aggregate of a sublist is the exact one.\<close>

lemma abs_amount_filter_le:
  "sum_list (map (\<lambda>t. \<bar>amount t\<bar>) (filter P T)) \<le> sum_list (map (\<lambda>t. \<bar>amount t\<bar>) T)"
  by (induction T) auto

lemma within_exact_range_filter:
  "within_exact_range T \<Longrightarrow> within_exact_range (filter P T)"
  using abs_amount_filter_le [of P T] by (simp add: within_exact_range_def)

lemma num_sum_filter_amount:
  assumes "within_exact_range B"
  shows "num_sum (filter P (map amount B)) = sum_list (filter P (map amount B))"
proof -
  have "filter P (map amount B) = map amount (filter (\<lambda>t. P (amount t)) B)"
    by (simp add: filter_map comp_def)
  moreover have "sum_list (map abs (map amount (filter (\<lambda>t. P (amount t)) B))) \<le> 2 ^ 53"
    using within_exact_range_filter [OF assms, of "\<lambda>t. P (amount t)"]
    by (simp add: within_exact_range_def comp_def)
  ultimately show ?thesis by (simp add: num_sum_exact)
qed

lemma sum_nonpositive_negative:
  "sum_list (filter (\<lambda>a. \<not> 0 < a) xs) = sum_list (filter (\<lambda>a. a < 0) (xs :: int list))"
  by (induction xs) auto

lemma aggregateOf_exact:
  assumes "within_exact_range B"
  shows "aggregateOf B =
     (if B = [] then None else Some \<lparr>income = positiveSum B, expense = negativeSum B\<rparr>)"
  using assms
  by (simp add: aggregateOf_def positiveSum_def negativeSum_def num_sum_filter_amount
      sum_nonpositive_negative)

lemma bucketKey_onDate:
  "\<not> epochStamped t \<Longrightarrow> bucketKey t = Some k \<longleftrightarrow> onDate k t"
  by (auto simp: bucketKey_def onDate_def epochStamped_def split: option.splits)

lemma filter_bucketKey_onDate:
  assumes "\<forall>t\<in>set T. \<not> epochStamped t"
  shows "filter (\<lambda>t. bucketKey t = Some k) T = filter (onDate k) T"
  using assms by (intro filter_cong) (auto simp: bucketKey_onDate)

lemma dailyData_exact:
  assumes "within_exact_range T" and "\<forall>t\<in>set T. \<not> epochStamped t"
  shows "dailyData T k =
     (if filter (onDate k) T = [] then None
      else Some \<lparr>income = positiveSum (filter (onDate k) T),
                 expense = negativeSum (filter (onDate k) T)\<rparr>)"
proof -
  have "dailyData T k = aggregateOf (filter (onDate k) T)"
    by (simp add: dailyData_aggregateOf filter_bucketKey_onDate [OF assms(2)])
  also have "\<dots> = (if filter (onDate k) T = [] then None
      else Some \<lparr>income = positiveSum (filter (onDate k) T),
                 expense = negativeSum (filter (onDate k) T)\<rparr>)"
    using assms(1) by (intro aggregateOf_exact within_exact_range_filter)
  finally show ?thesis .
qed

lemma scenario_exact: "within_exact_range scenario"
  by (simp add: within_exact_range_def scenario_def sample_eval)

lemma scenario_not_epoch: "\<forall>t\<in>set scenario. \<not> epochStamped t"
  by (simp add: scenario_def epochStamped_def sample_def stamped_def)

lemma dailyData_scenario:
  "dailyData scenario ''2024-05-01'' = Some \<lparr>income = 50000, expense = - 3000\<rparr>"
  by (simp add: dailyData_def scenario_def sample_eval sample_keys num_add_small)

lemma currentBalance_scenario: "currentBalance scenario = 57000"
  by (simp add: currentBalance_def scenario_def sample_eval num_add_small)

lemma dailyData_bigDay:
  "dailyData bigDay ''2024-05-01'' = Some \<lparr>income = 9007199254740992, expense = 0\<rparr>"
  by (simp add: dailyData_def bigDay_def sample_eval sample_keys num_add_def round_2p53_1
      round_to_double_exact)

lemma dailyData_rev_bigDay:
  "dailyData (rev bigDay) ''2024-05-01'' = Some \<lparr>income = 9007199254740994, expense = 0\<rparr>"
  by (simp add: dailyData_def bigDay_def sample_eval sample_keys num_add_def round_2p53_2
      round_to_double_exact)

text \<open>
  Claim C5, as the code has it. In the exact regime, with no transaction stamped with the
  epoch itself and none whose local calendar date differs from the UTC date of its
  timestamp, the aggregate of a calendar date with at least one transaction has as income
  the sum of the positive amounts of the transactions of that date, and as expense the
  sum of their negative amounts. In the scenario the balance is 57000 and the aggregate of
  2024-05-01 is an income of 50000 and an expense of -3000.
\<close>

theorem dailyData_calendar_date:
  "(within_exact_range T \<and> (\<forall>t\<in>set T. \<not> epochStamped t) \<and> (\<forall>t\<in>set T. datesCoincide tz t)
      \<and> (\<exists>t\<in>set T. onLocalDate tz k t)
      \<longrightarrow> dailyData T k = Some \<lparr>income = positiveSum (filter (onLocalDate tz k) T),
                                 expense = negativeSum (filter (onLocalDate tz k) T)\<rparr>)
   \<and> currentBalance scenario = 57000
   \<and> dailyData scenario ''2024-05-01'' = Some \<lparr>income = 50000, expense = - 3000\<rparr>"
proof (intro conjI impI)
  assume a: "within_exact_range T \<and> (\<forall>t\<in>set T. \<not> epochStamped t)
             \<and> (\<forall>t\<in>set T. datesCoincide tz t) \<and> (\<exists>t\<in>set T. onLocalDate tz k t)"
  then have f: "filter (onLocalDate tz k) T = filter (onDate k) T"
    by (intro filter_onLocalDate) simp
  have "filter (onLocalDate tz k) T \<noteq> []"
    using a by (simp add: filter_empty_conv)
  then have ne: "filter (onDate k) T \<noteq> []"
    unfolding f .
  have r: "within_exact_range T" and e: "\<forall>t\<in>set T. \<not> epochStamped t"
    using a by simp_all
  have "dailyData T k = Some \<lparr>income = positiveSum (filter (onDate k) T),
                               expense = negativeSum (filter (onDate k) T)\<rparr>"
    using ne by (simp add: dailyData_exact [OF r e])
  then show "dailyData T k = Some \<lparr>income = positiveSum (filter (onLocalDate tz k) T),
                                   expense = negativeSum (filter (onLocalDate tz k) T)\<rparr>"
    by (simp only: f)
next
  show "currentBalance scenario = 57000"
    by (rule currentBalance_scenario)
  show "dailyData scenario ''2024-05-01'' = Some \<lparr>income = 50000, expense = - 3000\<rparr>"
    by (rule dailyData_scenario)
qed

theorem dailyData_calendar_date_witness:
  "within_exact_range scenario
   \<and> filter epochStamped scenario = []
   \<and> filter (datesCoincide 540) scenario = scenario
   \<and> filter (onLocalDate 540 ''2024-05-01'') scenario
       = [sample 50000 (stamped 1714564800), sample (- 3000) (stamped 1714568400)]
   \<and> dailyData scenario ''2024-05-01''
       = Some \<lparr>income = positiveSum (filter (onLocalDate 540 ''2024-05-01'') scenario),
               expense = negativeSum (filter (onLocalDate 540 ''2024-05-01'') scenario)\<rparr>
   \<and> positiveSum (filter (onLocalDate 540 ''2024-05-01'') scenario) = 50000
   \<and> negativeSum (filter (onLocalDate 540 ''2024-05-01'') scenario) = - 3000"
proof -
  have f: "filter epochStamped scenario = []"
    using scenario_not_epoch by (simp add: filter_empty_conv)
  have c: "filter (datesCoincide 540) scenario = scenario"
    by (simp add: scenario_def local_eval sample_keys more_keys)
  then have c': "\<forall>t\<in>set scenario. datesCoincide 540 t"
    by (simp add: filter_id_conv)
  have o: "filter (onLocalDate 540 ''2024-05-01'') scenario
       = [sample 50000 (stamped 1714564800), sample (- 3000) (stamped 1714568400)]"
    by (simp add: scenario_def local_eval sample_keys more_keys)
  then have "filter (onLocalDate 540 ''2024-05-01'') scenario \<noteq> []"
    by simp
  then have "\<exists>t\<in>set scenario. onLocalDate 540 ''2024-05-01'' t"
    by (simp add: filter_empty_conv)
  then have h: "within_exact_range scenario \<and> (\<forall>t\<in>set scenario. \<not> epochStamped t)
           \<and> (\<forall>t\<in>set scenario. datesCoincide 540 t)
           \<and> (\<exists>t\<in>set scenario. onLocalDate 540 ''2024-05-01'' t)"
    using scenario_exact scenario_not_epoch c' by simp
  have p: "positiveSum (filter (onLocalDate 540 ''2024-05-01'') scenario) = 50000"
    unfolding o by (simp add: positiveSum_def sample_eval)
  have n: "negativeSum (filter (onLocalDate 540 ''2024-05-01'') scenario) = - 3000"
    unfolding o by (simp add: negativeSum_def sample_eval)
  have d: "dailyData scenario ''2024-05-01''
       = Some \<lparr>income = positiveSum (filter (onLocalDate 540 ''2024-05-01'') scenario),
               expense = negativeSum (filter (onLocalDate 540 ''2024-05-01'') scenario)\<rparr>"
    using h dailyData_calendar_date [of scenario 540 "''2024-05-01''"] by blast
  show ?thesis
    using scenario_exact f c o d p n by blast
qed

text \<open>
  Claim C5, as stated, fails beyond the exact regime: the three incomes of \<open>bigDay\<close>, all
  of 1 May 2024 in Japan as in UTC, have the sum \<open>2^53 + 2\<close>, and the aggregate of the
  day has the income \<open>2^53\<close>.
\<close>

theorem dailyData_calendar_date_counterexample:
  "filter (onLocalDate 540 ''2024-05-01'') bigDay = bigDay
   \<and> dailyData bigDay ''2024-05-01'' = Some \<lparr>income = 9007199254740992, expense = 0\<rparr>
   \<and> positiveSum (filter (onLocalDate 540 ''2024-05-01'') bigDay) = 9007199254740994"
proof -
  have f: "filter (onLocalDate 540 ''2024-05-01'') bigDay = bigDay"
    by (simp add: bigDay_def local_eval more_keys)
  have p: "positiveSum bigDay = 9007199254740994"
    by (simp add: positiveSum_def bigDay_def sample_eval)
  show ?thesis
    using dailyData_bigDay p by (simp add: f)
qed

lemma positiveSum_mset:
  assumes "mset B' = mset B"
  shows "positiveSum B' = positiveSum B"
proof -
  have "mset (filter (\<lambda>a. 0 < a) (map amount B')) = mset (filter (\<lambda>a. 0 < a) (map amount B))"
    using assms by (metis mset_filter mset_map)
  then have "sum_mset (mset (filter (\<lambda>a. 0 < a) (map amount B')))
             = sum_mset (mset (filter (\<lambda>a. 0 < a) (map amount B)))"
    by (rule arg_cong)
  then show ?thesis by (simp only: positiveSum_def sum_mset_sum_list)
qed

lemma negativeSum_mset:
  assumes "mset B' = mset B"
  shows "negativeSum B' = negativeSum B"
proof -
  have "mset (filter (\<lambda>a. a < 0) (map amount B')) = mset (filter (\<lambda>a. a < 0) (map amount B))"
    using assms by (metis mset_filter mset_map)
  then have "sum_mset (mset (filter (\<lambda>a. a < 0) (map amount B')))
             = sum_mset (mset (filter (\<lambda>a. a < 0) (map amount B)))"
    by (rule arg_cong)
  then show ?thesis by (simp only: negativeSum_def sum_mset_sum_list)
qed

lemma aggregateOf_mset:
  assumes "within_exact_range B" and "mset B' = mset B"
  shows "aggregateOf B' = aggregateOf B"
proof -
  have r: "within_exact_range B'"
    using assms(1) within_exact_range_mset [OF assms(2)] by simp
  have e: "B' = [] \<longleftrightarrow> B = []"
    using assms(2) by (metis mset_zero_iff)
  show ?thesis
    by (simp add: aggregateOf_exact [OF r] aggregateOf_exact [OF assms(1)] e
        positiveSum_mset [OF assms(2)] negativeSum_mset [OF assms(2)])
qed

text \<open>
  Claim C8, as the code has it. In the exact regime the aggregates do not depend on the
  order of the transactions: every permutation of the list gives the same mapping.
\<close>

theorem dailyData_permutation:
  assumes "within_exact_range T" and "mset T' = mset T"
  shows "dailyData T' = dailyData T"
proof
  fix k
  have m: "mset (filter (\<lambda>t. bucketKey t = Some k) T') = mset (filter (\<lambda>t. bucketKey t = Some k) T)"
    using assms(2) by simp
  have r: "within_exact_range (filter (\<lambda>t. bucketKey t = Some k) T)"
    using assms(1) by (rule within_exact_range_filter)
  show "dailyData T' k = dailyData T k"
    unfolding dailyData_aggregateOf using r m by (rule aggregateOf_mset)
qed

theorem dailyData_permutation_witness:
  "within_exact_range scenario \<and> mset (rev scenario) = mset scenario
   \<and> dailyData (rev scenario) = dailyData scenario"
proof -
  have m: "mset (rev scenario) = mset scenario"
    by simp
  show ?thesis
    using scenario_exact m dailyData_permutation [OF scenario_exact m] by simp
qed

text \<open>
  Claim C8, as stated, fails beyond the exact regime: \<open>bigDay\<close> and its reversal give
  different incomes for the day.
\<close>

theorem dailyData_permutation_counterexample:
  "mset (rev bigDay) = mset bigDay
   \<and> dailyData (rev bigDay) ''2024-05-01'' \<noteq> dailyData bigDay ''2024-05-01''"
  by (simp add: dailyData_bigDay dailyData_rev_bigDay)


lemma nonPositiveSum_negativeSum: "nonPositiveSum B = negativeSum B"
proof -
  have "sum_list (filter (\<lambda>a. a \<le> 0) xs) = sum_list (filter (\<lambda>a. a < 0) xs)"
    for xs :: "int list"
    by (induction xs) auto
  then show ?thesis by (simp add: nonPositiveSum_def negativeSum_def)
qed

text \<open>
  Claim C9, as the code has it. In the exact regime, and with no transaction stamped with
  the epoch itself, the aggregate under the day key of a date agrees with the list of the
  transactions of that date: its income is the sum of their positive amounts and its
  expense the sum of their non-positive amounts; there is no aggregate exactly when the
  list is empty.
\<close>

theorem dailyData_dailyTransactions:
  assumes "within_exact_range T" and "\<forall>t\<in>set T. \<not> epochStamped t"
  shows "case dailyData T (toISODate d) of
           None \<Rightarrow> dailyTransactions d T = []
         | Some a \<Rightarrow> dailyTransactions d T \<noteq> []
                     \<and> income a = positiveSum (dailyTransactions d T)
                     \<and> expense a = nonPositiveSum (dailyTransactions d T)"
proof -
  have m: "mset (dailyTransactions d T) = mset (filter (onDate (toISODate d)) T)"
    by (rule mset_dailyTransactions)
  have e: "dailyTransactions d T = [] \<longleftrightarrow> filter (onDate (toISODate d)) T = []"
    using m by (metis mset_zero_iff)
  show ?thesis
    by (simp add: dailyData_exact [OF assms] e positiveSum_mset [OF m]
        nonPositiveSum_negativeSum negativeSum_mset [OF m])
qed

theorem dailyData_dailyTransactions_witness:
  "within_exact_range scenario
   \<and> filter epochStamped scenario = []
   \<and> dailyData scenario (toISODate 1714521600000)
       = Some \<lparr>income = 50000, expense = - 3000\<rparr>
   \<and> positiveSum (dailyTransactions 1714521600000 scenario) = 50000
   \<and> nonPositiveSum (dailyTransactions 1714521600000 scenario) = - 3000"
proof -
  have f: "filter epochStamped scenario = []"
    using scenario_not_epoch by (simp add: filter_empty_conv)
  have a: "dailyData scenario (toISODate 1714521600000)
           = Some \<lparr>income = 50000, expense = - 3000\<rparr>"
    by (simp add: sample_keys dailyData_scenario)
  have "positiveSum (dailyTransactions 1714521600000 scenario) = 50000
        \<and> nonPositiveSum (dailyTransactions 1714521600000 scenario) = - 3000"
    using a dailyData_dailyTransactions [OF scenario_exact scenario_not_epoch, of 1714521600000]
    by simp
  then show ?thesis
    using scenario_exact f a by blast
qed

text \<open>
  Claim C9, as stated, fails beyond the exact regime: the aggregate of the day of
  \<open>bigDay\<close> has the income \<open>2^53\<close>, and the positive amounts of the transactions listed
  for that day have the sum \<open>2^53 + 2\<close>, also when added as Numbers in the listed order.
\<close>

theorem dailyData_dailyTransactions_counterexample:
  "dailyData bigDay (toISODate 1714521600000)
     = Some \<lparr>income = 9007199254740992, expense = 0\<rparr>
   \<and> positiveSum (dailyTransactions 1714521600000 bigDay) = 9007199254740994
   \<and> num_sum (map amount (dailyTransactions 1714521600000 bigDay)) = 9007199254740994"
proof -
  have l: "dailyTransactions 1714521600000 bigDay
           = [sample 1 (stamped 1714572000), sample 1 (stamped 1714568400),
              sample 9007199254740992 (stamped 1714564800)]"
    by (simp add: dailyTransactions_def bigDay_def sample_eval sample_keys)
  have a: "dailyData bigDay (toISODate 1714521600000)
           = Some \<lparr>income = 9007199254740992, expense = 0\<rparr>"
    by (simp add: sample_keys dailyData_bigDay)
  have p: "positiveSum (dailyTransactions 1714521600000 bigDay) = 9007199254740994"
    by (simp add: l positiveSum_def sample_eval)
  have n: "num_sum (map amount (dailyTransactions 1714521600000 bigDay)) = 9007199254740994"
    by (simp add: l num_sum_def sample_eval num_add_def round_2p53_2 round_to_double_exact)
  show ?thesis using a p n by simp
qed

text \<open>
  Claim C3 at two inputs. In Japan (540 minutes east of UTC) a transaction stamped
  2024-05-01 20:00 UTC has the local calendar date 2024-05-02, and it is counted under the
  day key 2024-05-01, the UTC date. A transaction stamped with the epoch itself has a
  timestamp and is counted under no day key, while the list of that day holds it.
\<close>

theorem dailyData_bucket_evaluation:
  "localDateKey 540 (dateOfTimestamp \<lparr>seconds = 1714593600\<rparr>) = ''2024-05-02''
   \<and> dailyData [sample 100 (stamped 1714593600)] ''2024-05-02'' = None
   \<and> dailyData [sample 100 (stamped 1714593600)] ''2024-05-01''
       = Some \<lparr>income = 100, expense = 0\<rparr>
   \<and> dailyData [sample 100 (stamped 0)] ''1970-01-01'' = None
   \<and> dailyTransactions 0 [sample 100 (stamped 0)] = [sample 100 (stamped 0)]"
  by (simp add: localDateKey_def dateOfTimestamp_def dailyData_def dailyTransactions_def
      sample_eval sample_keys num_add_small)

section \<open>The calendar grid\<close>

lemma day_offset_le: "(153 * ((5 * x + 2) div 153) + 2) div 5 \<le> (x::int)"
proof -
  have "0 \<le> (5 * x + 2) mod 153"
    by simp
  moreover have "153 * ((5 * x + 2) div 153) + (5 * x + 2) mod 153 = 5 * x + 2"
    by (rule mult_div_mod_eq)
  ultimately have "153 * ((5 * x + 2) div 153) + 2 \<le> 5 * x + 4"
    by linarith
  then have "(153 * ((5 * x + 2) div 153) + 2) div 5 \<le> (5 * x + 4) div 5"
    by (rule zdiv_mono1) simp
  also have "(5 * x + 4) div 5 = x"
    by simp
  finally show ?thesis .
qed

lemma civil_from_days_day: "case civil_from_days n of (y, m, d) \<Rightarrow> 1 \<le> d"
proof -
  define doe where "doe = (n + 719468) mod 146097"
  define yoe where "yoe = (doe - doe div 1460 + doe div 36524 - doe div 146096) div 365"
  define doy where "doy = doe - (365 * yoe + yoe div 4 - yoe div 100)"
  have "(case civil_from_days n of (y, m, d) \<Rightarrow> d)
        = doy - (153 * ((5 * doy + 2) div 153) + 2) div 5 + 1"
    unfolding civil_from_days_def Let_def doy_def yoe_def doe_def
    by (simp only: case_prod_conv)
  moreover have "1 \<le> doy - (153 * ((5 * doy + 2) div 153) + 2) div 5 + 1"
    using day_offset_le [of doy] by simp
  ultimately have "1 \<le> (case civil_from_days n of (y, m, d) \<Rightarrow> d)"
    by (simp only:)
  then show ?thesis
    by (cases "civil_from_days n") simp
qed

lemma getDate_ge_1: "1 \<le> getDate tz t"
  using civil_from_days_day [of "localDay tz t"]
  by (cases "civil_from_days (localDay tz t)") (simp add: getDate_def)

lemma getDay_less_7: "getDay tz t < 7"
  by (simp add: getDay_def)

lemma localDay_newDate:
  "localDay tz (newDate tz year month day)
   = days_from_civil ((if 0 \<le> year \<and> year \<le> 99 then 1900 + year else year) + month div 12)
       (month mod 12 + 1) 1 + day - 1"
  by (simp add: localDay_def newDate_def Let_def msPerDay_def)

lemma calendarDays_append:
  "calendarDays tz data year month =
     map EmptyStart [0..<getDay tz (newDate tz year month 1)]
     @ map (\<lambda>day. DayCell day (data (toISODate (newDate tz year month day))))
         [1..getDate tz (newDate tz year (month + 1) 0)]
     @ map EmptyEnd [0..<(7 - (getDay tz (newDate tz year month 1)
                               + nat (getDate tz (newDate tz year (month + 1) 0))) mod 7) mod 7]"
  by (simp add: calendarDays_def Let_def)


lemma pad_to_week: "7 dvd (L + (7 - L mod 7) mod 7)" for L :: nat
proof -
  define m where "m = L mod 7"
  define q where "q = L div 7"
  have L: "L = 7 * q + m"
    by (simp add: m_def q_def)
  have m7: "m < 7"
    by (simp add: m_def)
  show ?thesis
  proof (cases "m = 0")
    case True
    then show ?thesis
      unfolding m_def [symmetric] L by simp
  next
    case False
    then have "(7 - m) mod 7 = 7 - m"
      using m7 by (intro mod_less) simp
    then have "L + (7 - m) mod 7 = 7 * (q + 1)"
      using m7 L by simp
    then show ?thesis
      unfolding m_def [symmetric] by simp
  qed
qed

lemma calendarDays_shape:
  "let startDay = getDay tz (newDate tz year month 1);
       daysInMonth = nat (getDate tz (newDate tz year (month + 1) 0));
       grid = calendarDays tz data year month
   in 7 dvd length grid
      \<and> startDay < 7 \<and> 1 \<le> daysInMonth
      \<and> take startDay grid = map EmptyStart [0..<startDay]
      \<and> (\<forall>i<daysInMonth. grid ! (startDay + i)
             = DayCell (int i + 1) (data (toISODate (newDate tz year month (int i + 1)))))
      \<and> drop (startDay + daysInMonth) grid
          = map EmptyEnd [0..<length grid - (startDay + daysInMonth)]
      \<and> length grid - (startDay + daysInMonth) < 7
      \<and> (startDay = 3 \<longrightarrow>
            take 3 grid = [EmptyStart 0, EmptyStart 1, EmptyStart 2]
            \<and> grid ! 3 = DayCell 1 (data (toISODate (newDate tz year month 1))))"
proof -
  define s where "s = getDay tz (newDate tz year month 1)"
  define n where "n = getDate tz (newDate tz year (month + 1) 0)"
  define r where "r = (7 - (s + nat n) mod 7) mod 7"
  define lead where "lead = map EmptyStart [0..<s]"
  define days where
    "days = map (\<lambda>day. DayCell day (data (toISODate (newDate tz year month day)))) [1..n]"
  define trail where "trail = map EmptyEnd [0..<r]"
  define grid where "grid = calendarDays tz data year month"
  have g: "grid = lead @ days @ trail"
    unfolding grid_def lead_def days_def trail_def r_def s_def n_def
    by (rule calendarDays_append)
  have n1: "1 \<le> n"
    unfolding n_def by (rule getDate_ge_1)
  have s7: "s < 7"
    unfolding s_def by (rule getDay_less_7)
  have ll: "length lead = s"
    by (simp add: lead_def)
  have ld: "length days = nat n"
    by (simp add: days_def)
  have lt: "length trail = r"
    by (simp add: trail_def)
  have len: "length grid = s + nat n + r"
    by (simp add: g ll ld lt)
  have dvd: "7 dvd length grid"
    unfolding len r_def by (rule pad_to_week)
  have r7: "r < 7"
    by (simp add: r_def)
  have tk: "take s grid = lead"
    by (simp add: g ll)
  have nth: "grid ! (s + i) = DayCell (int i + 1) (data (toISODate (newDate tz year month (int i + 1))))"
    if "i < nat n" for i
  proof -
    have "grid ! (s + i) = days ! i"
      using that by (simp add: g nth_append ll ld)
    also have "\<dots> = DayCell ([1..n] ! i) (data (toISODate (newDate tz year month ([1..n] ! i))))"
      using that by (simp add: days_def)
    also have "[1..n] ! i = 1 + int i"
      using that by (intro nth_upto) linarith
    finally show ?thesis by (simp add: add.commute)
  qed
  have dr: "drop (s + nat n) grid = trail"
    by (simp add: g ll ld)
  have rest: "length grid - (s + nat n) = r"
    by (simp add: len)
  have wed: "take 3 grid = [EmptyStart 0, EmptyStart 1, EmptyStart 2]
             \<and> grid ! 3 = DayCell 1 (data (toISODate (newDate tz year month 1)))" if "s = 3"
  proof -
    have "take 3 grid = map EmptyStart [0..<3]"
      using tk that by (simp add: lead_def)
    moreover have "[0..<3] = [0, 1, 2::nat]"
      by (simp add: upt_rec)
    moreover have "grid ! (s + 0) = DayCell (int 0 + 1) (data (toISODate (newDate tz year month (int 0 + 1))))"
      using n1 by (intro nth) simp
    ultimately show ?thesis using that by simp
  qed
  have "7 dvd length grid
      \<and> s < 7 \<and> 1 \<le> nat n
      \<and> take s grid = map EmptyStart [0..<s]
      \<and> (\<forall>i<nat n. grid ! (s + i)
             = DayCell (int i + 1) (data (toISODate (newDate tz year month (int i + 1)))))
      \<and> drop (s + nat n) grid = map EmptyEnd [0..<length grid - (s + nat n)]
      \<and> length grid - (s + nat n) < 7
      \<and> (s = 3 \<longrightarrow>
            take 3 grid = [EmptyStart 0, EmptyStart 1, EmptyStart 2]
            \<and> grid ! 3 = DayCell 1 (data (toISODate (newDate tz year month 1))))"
    using dvd s7 n1 tk nth dr rest r7 wed
    by (simp add: lead_def trail_def)
  then show ?thesis
    unfolding Let_def s_def n_def grid_def .
qed

lemma May2024_startDay: "getDay 540 (newDate 540 2024 4 1) = 3"
  by (simp add: getDay_def localDay_newDate days_from_civil_def cong: let_weak_cong)

lemma May2024_daysInMonth: "nat (getDate 540 (newDate 540 2024 (4 + 1) 0)) = 31"
  by (simp add: getDate_def localDay_newDate days_from_civil_def civil_from_days_def
      cong: let_weak_cong)

lemma calendarDays_May2024:
  "getDay 540 (newDate 540 2024 4 1) = 3
   \<and> (30::nat) < nat (getDate 540 (newDate 540 2024 (4 + 1) 0))
   \<and> 7 dvd length (calendarDays 540 Map.empty 2024 4)
   \<and> take 3 (calendarDays 540 Map.empty 2024 4) = [EmptyStart 0, EmptyStart 1, EmptyStart 2]
   \<and> calendarDays 540 Map.empty 2024 4 ! 3 = DayCell 1 None
   \<and> calendarDays 540 Map.empty 2024 4 ! (3 + 30) = DayCell 31 None
   \<and> drop (3 + 31) (calendarDays 540 Map.empty 2024 4)
       = map EmptyEnd [0..<length (calendarDays 540 Map.empty 2024 4) - (3 + 31)]"
proof -
  have d: "(30::nat) < nat (getDate 540 (newDate 540 2024 (4 + 1) 0))"
    by (simp only: May2024_daysInMonth)
  note g = calendarDays_shape [of 540 2024 4 Map.empty, unfolded Let_def May2024_startDay]
  have a: "7 dvd length (calendarDays 540 Map.empty 2024 4)"
    using g by blast
  have b: "take 3 (calendarDays 540 Map.empty 2024 4) = [EmptyStart 0, EmptyStart 1, EmptyStart 2]
           \<and> calendarDays 540 Map.empty 2024 4 ! 3 = DayCell 1 None"
    using g by blast
  have "\<forall>i<nat (getDate 540 (newDate 540 2024 (4 + 1) 0)).
          calendarDays 540 Map.empty 2024 4 ! (3 + i) = DayCell (int i + 1) None"
    using g by blast
  then have "calendarDays 540 Map.empty 2024 4 ! (3 + 30) = DayCell (int 30 + 1) None"
    using d by blast
  then have c: "calendarDays 540 Map.empty 2024 4 ! (3 + 30) = DayCell 31 None"
    by simp
  have e: "drop (3 + 31) (calendarDays 540 Map.empty 2024 4)
       = map EmptyEnd [0..<length (calendarDays 540 Map.empty 2024 4) - (3 + 31)]"
    using g unfolding May2024_daysInMonth by blast
  show ?thesis
    using May2024_startDay d a b c e by blast
qed

lemmas calendar_eval = weekdayOfFirst_def dayOfFirst_def dayFromYear_def daysInMonthOf_def
  isLeapYear_def

lemmas date_fields_eval = getDay_def getDate_def getFullYear_def getMonth_def
  localDay_newDate days_from_civil_def civil_from_days_def

lemma January100: "getFullYear 540 (newDate 540 100 0 1) = 100"
  "getMonth 540 (newDate 540 100 0 1) = 0"
  by (simp_all add: date_fields_eval cong: let_weak_cong)

lemma December99: "getFullYear 540 (newDate 540 100 (- 1) 1) = 99"
  "getMonth 540 (newDate 540 100 (- 1) 1) = 11"
  by (simp_all add: date_fields_eval cong: let_weak_cong)

lemma November1999: "getFullYear 540 (newDate 540 99 10 1) = 1999"
  "getMonth 540 (newDate 540 99 10 1) = 10"
  by (simp_all add: date_fields_eval cong: let_weak_cong)

lemma December99_startDay: "getDay 540 (newDate 540 99 11 1) = 3"
  by (simp add: date_fields_eval cong: let_weak_cong)

text \<open>
  Claim C6 at one input. Going back one month from January of the year 100 gives a
  current date in December of the year 99. That month starts on a Tuesday, so its grid
  should start with 2 empty cells; the grid starts with 3 empty cells and has day 1 in
  the fourth, as December 1999 does, which starts on a Wednesday. Going back one more
  month gives a current date in November 1999. For January 100, May 2024 and February
  2024 the weekday of the first day and the number of days are those of the calendar.
\<close>

theorem calendarView_evaluation:
  "getFullYear 540 (prevMonth 540 (newDate 540 100 0 1)) = 99
   \<and> getMonth 540 (prevMonth 540 (newDate 540 100 0 1)) = 11
   \<and> weekdayOfFirst 99 11 = 2
   \<and> take 3 (calendarView 540 Map.empty (prevMonth 540 (newDate 540 100 0 1)))
       = [EmptyStart 0, EmptyStart 1, EmptyStart 2]
   \<and> calendarView 540 Map.empty (prevMonth 540 (newDate 540 100 0 1)) ! 3 = DayCell 1 None
   \<and> weekdayOfFirst 1999 11 = 3
   \<and> getFullYear 540 (prevMonth 540 (prevMonth 540 (newDate 540 100 0 1))) = 1999
   \<and> getMonth 540 (prevMonth 540 (prevMonth 540 (newDate 540 100 0 1))) = 10
   \<and> getDay 540 (newDate 540 100 0 1) = 5 \<and> weekdayOfFirst 100 0 = 5
   \<and> getDay 540 (newDate 540 2024 4 1) = 3 \<and> weekdayOfFirst 2024 4 = 3
   \<and> getDate 540 (newDate 540 2024 (1 + 1) 0) = 29 \<and> daysInMonthOf 2024 1 = 29"
proof -
  have p: "prevMonth 540 (newDate 540 100 0 1) = newDate 540 100 (- 1) 1"
    by (simp add: prevMonth_def January100)
  have v: "calendarView 540 Map.empty (newDate 540 100 (- 1) 1)
           = calendarDays 540 Map.empty 99 11"
    by (simp add: calendarView_def December99)
  note g = calendarDays_shape [of 540 99 11 Map.empty, unfolded Let_def December99_startDay]
  have c: "take 3 (calendarDays 540 Map.empty 99 11) = [EmptyStart 0, EmptyStart 1, EmptyStart 2]
           \<and> calendarDays 540 Map.empty 99 11 ! 3 = DayCell 1 None"
    using g by blast
  have w: "weekdayOfFirst 99 11 = 2" "weekdayOfFirst 1999 11 = 3" "weekdayOfFirst 100 0 = 5"
    "weekdayOfFirst 2024 4 = 3" "daysInMonthOf 2024 1 = 29"
    by code_simp+
  have d: "getDay 540 (newDate 540 100 0 1) = 5" "getDay 540 (newDate 540 2024 4 1) = 3"
    "getDate 540 (newDate 540 2024 (1 + 1) 0) = 29"
    by (simp_all add: date_fields_eval cong: let_weak_cong)
  have q: "prevMonth 540 (newDate 540 100 (- 1) 1) = newDate 540 99 10 1"
    by (simp add: prevMonth_def December99)
  show ?thesis
    using c w d by (simp add: v p q December99 November1999)
qed

end
